theory Spec2Isabelle
  imports Main
begin

section \<open>Values shared by the sender chain\<close>

text \<open>
  A Go \<open>error\<close> is an optional value: \<open>None\<close> is \<open>nil\<close>. \<open>MultiError\<close> is the combined
  error that \<open>multierr.Combine\<close> builds.
\<close>

datatype error = Error string | MultiError "error list"

text \<open>
  What a Go call does: it returns, it panics, or (for the fuel-bounded walk along the
  \<open>nextSender\<close> pointers only) the fuel ran out before it returned.
\<close>

datatype 'a outcome = Returns 'a | Panics string | OutOfFuel

type_synonym addr = nat

datatype DataType = DataTypeTraces | DataTypeMetrics | DataTypeLogs

text \<open>
  The settings types are declared outside \<open>common.go\<close>; the file reads \<open>Enabled\<close> of the
  retry and queue settings and stores the rest as it is.
\<close>

record TimeoutSettings =
  Timeout :: int

record RetrySettings =
  retryEnabled :: bool
  InitialInterval :: int
  MaxInterval :: int
  MaxElapsedTime :: int

record QueueSettings =
  queueEnabled :: bool
  NumConsumers :: int
  QueueSize :: int

record CreateSettings =
  ID :: string
  Logger :: nat

record ObsReport =
  ExporterID :: string

record Capabilities =
  MutatesData :: bool

record Request =
  Context :: string
  Count :: int

definition NewDefaultTimeoutSettings :: TimeoutSettings where
  "NewDefaultTimeoutSettings = \<lparr>Timeout = 5000000000\<rparr>"

section \<open>Senders and the store they live in\<close>

text \<open>
  Every sender is a heap object with a mutable \<open>nextSender\<close> field. \<open>BaseRequestSender\<close> and
  \<open>ErrorLoggingRequestSender\<close> are the two implementations written in \<open>common.go\<close>; the other
  four are built by constructors defined elsewhere (\<open>osf\<close>, \<open>newRetrySender\<close>,
  \<open>newQueueSender\<close>, the \<open>timeoutSender\<close> literal) and carry what \<open>common.go\<close> hands to them.
\<close>

datatype sender_impl =
    BaseRequestSender
  | ErrorLoggingRequestSender nat string
  | ObsrepSender ObsReport
  | RetrySender RetrySettings CreateSettings "addr option"
  | QueueSender QueueSettings CreateSettings DataType nat nat
  | TimeoutSender TimeoutSettings

record sender =
  impl :: sender_impl
  nextSender :: "addr option"

record store =
  cells :: "addr \<rightharpoonup> sender"
  fresh :: addr

definition alloc :: "sender_impl \<Rightarrow> store \<Rightarrow> addr \<times> store" where
  "alloc i st =
     (fresh st,
      st\<lparr>cells := (cells st)(fresh st \<mapsto> \<lparr>impl = i, nextSender = None\<rparr>),
         fresh := Suc (fresh st)\<rparr>)"

definition setNextSender :: "addr \<Rightarrow> addr \<Rightarrow> store \<Rightarrow> store" where
  "setNextSender a n st =
     (case cells st a of
        None \<Rightarrow> st
      | Some s \<Rightarrow> st\<lparr>cells := (cells st)(a \<mapsto> s\<lparr>nextSender := Some n\<rparr>)\<rparr>)"

section \<open>The world the senders act on\<close>

datatype target = Transport | Sender addr

datatype event = StartCalled target | ShutdownCalled target

record log_entry =
  logger :: nat
  message :: string
  dropped_items :: int
  logged_error :: error

record 's world =
  calls :: "event list"
  logged :: "log_entry list"
  ext :: 's

type_synonym 's lifecycle = "'s \<Rightarrow> error option \<times> 's"

type_synonym 's send_fn = "Request \<Rightarrow> 's world \<Rightarrow> (error option \<times> 's world) outcome"

text \<open>
  The behaviour of the senders that \<open>common.go\<close> only constructs is a parameter: their
  \<open>Start\<close> and \<open>Shutdown\<close>, and their \<open>send\<close>, which is handed the \<open>send\<close> of the next sender.
\<close>

record 's externals =
  senderStart :: "sender_impl \<Rightarrow> 's lifecycle"
  senderShutdown :: "sender_impl \<Rightarrow> 's lifecycle"
  senderSend :: "sender_impl \<Rightarrow> 's send_fn \<Rightarrow> 's send_fn"

definition record_call :: "event \<Rightarrow> 's world \<Rightarrow> 's world" where
  "record_call e w = w\<lparr>calls := calls w @ [e]\<rparr>"

definition run_lifecycle :: "'s lifecycle \<Rightarrow> 's world \<Rightarrow> error option \<times> 's world" where
  "run_lifecycle f w = (case f (ext w) of (e, s) \<Rightarrow> (e, w\<lparr>ext := s\<rparr>))"

text \<open>
  \<open>component.StartFunc.Start\<close> and \<open>component.ShutdownFunc.Shutdown\<close>: a nil function does
  nothing and returns nil.
\<close>

definition call_func :: "'s lifecycle option \<Rightarrow> 's world \<Rightarrow> error option \<times> 's world" where
  "call_func f w = (case f of None \<Rightarrow> (None, w) | Some g \<Rightarrow> run_lifecycle g w)"

definition logger_Error :: "nat \<Rightarrow> string \<Rightarrow> int \<Rightarrow> error \<Rightarrow> 's world \<Rightarrow> 's world" where
  "logger_Error l m n e w =
     w\<lparr>logged := logged w @ [\<lparr>logger = l, message = m, dropped_items = n, logged_error = e\<rparr>]\<rparr>"

text \<open>
  \<open>send\<close>, dispatched on the implementation found at an address.
  \<open>baseRequestSender.send\<close> is \<open>b.nextSender.send(req)\<close>; \<open>errorLoggingRequestSender.send\<close>
  calls that, logs a non-nil error with the request's count, and returns the error.
  Calling \<open>send\<close> on a nil \<open>nextSender\<close> panics.
\<close>

fun sender_send :: "'s externals \<Rightarrow> nat \<Rightarrow> store \<Rightarrow> addr option \<Rightarrow> 's send_fn" where
  "sender_send X 0 st a req w = OutOfFuel"
| "sender_send X (Suc n) st None req w = Panics ''nil pointer dereference''"
| "sender_send X (Suc n) st (Some a) req w =
     (case cells st a of
        None \<Rightarrow> Panics ''nil pointer dereference''
      | Some s \<Rightarrow>
          (case impl s of
             BaseRequestSender \<Rightarrow> sender_send X n st (nextSender s) req w
           | ErrorLoggingRequestSender l m \<Rightarrow>
               (case sender_send X n st (nextSender s) req w of
                  Returns (err, w') \<Rightarrow>
                    Returns (err, case err of None \<Rightarrow> w'
                                  | Some e \<Rightarrow> logger_Error l m (Count req) e w')
                | Panics p \<Rightarrow> Panics p
                | OutOfFuel \<Rightarrow> OutOfFuel)
           | ObsrepSender r \<Rightarrow>
               senderSend X (impl s) (sender_send X n st (nextSender s)) req w
           | RetrySender c cs h \<Rightarrow>
               senderSend X (impl s) (sender_send X n st (nextSender s)) req w
           | QueueSender c cs d m u \<Rightarrow>
               senderSend X (impl s) (sender_send X n st (nextSender s)) req w
           | TimeoutSender c \<Rightarrow>
               senderSend X (impl s) (sender_send X n st (nextSender s)) req w))"

text \<open>
  \<open>Start\<close> and \<open>Shutdown\<close> of a sender. The two implementations of \<open>common.go\<close> embed a nil
  \<open>StartFunc\<close> and a nil \<open>ShutdownFunc\<close>.
\<close>

definition sender_Start ::
  "'s externals \<Rightarrow> store \<Rightarrow> addr \<Rightarrow> 's world \<Rightarrow> (error option \<times> 's world) outcome" where
  "sender_Start X st a w =
     (case cells st a of
        None \<Rightarrow> Panics ''nil pointer dereference''
      | Some s \<Rightarrow>
          (case impl s of
             BaseRequestSender \<Rightarrow> Returns (call_func None (record_call (StartCalled (Sender a)) w))
           | ErrorLoggingRequestSender l m \<Rightarrow>
               Returns (call_func None (record_call (StartCalled (Sender a)) w))
           | _ \<Rightarrow> Returns (run_lifecycle (senderStart X (impl s))
                              (record_call (StartCalled (Sender a)) w))))"

definition sender_Shutdown ::
  "'s externals \<Rightarrow> store \<Rightarrow> addr \<Rightarrow> 's world \<Rightarrow> (error option \<times> 's world) outcome" where
  "sender_Shutdown X st a w =
     (case cells st a of
        None \<Rightarrow> Panics ''nil pointer dereference''
      | Some s \<Rightarrow>
          (case impl s of
             BaseRequestSender \<Rightarrow>
               Returns (call_func None (record_call (ShutdownCalled (Sender a)) w))
           | ErrorLoggingRequestSender l m \<Rightarrow>
               Returns (call_func None (record_call (ShutdownCalled (Sender a)) w))
           | _ \<Rightarrow> Returns (run_lifecycle (senderShutdown X (impl s))
                              (record_call (ShutdownCalled (Sender a)) w))))"

section \<open>multierr.Combine\<close>

text \<open>
  The library function the source calls in \<open>Shutdown\<close>: nil arguments are skipped; no error
  left gives nil, one error left gives that error, and several give one combined error
  holding them in argument order (a combined argument contributes its members).
\<close>

fun errors_of :: "error \<Rightarrow> error list" where
  "errors_of (MultiError es) = es"
| "errors_of (Error m) = [Error m]"

fun non_nil :: "error option list \<Rightarrow> error list" where
  "non_nil [] = []"
| "non_nil (None # es) = non_nil es"
| "non_nil (Some e # es) = e # non_nil es"

definition Combine :: "error option list \<Rightarrow> error option" where
  "Combine errs =
     (case non_nil errs of
        [] \<Rightarrow> None
      | [e] \<Rightarrow> Some e
      | e # e' # es \<Rightarrow> Some (MultiError (concat (map errors_of (e # e' # es)))))"

section \<open>baseExporter and its options\<close>

record 's baseExporter =
  StartFunc :: "'s lifecycle option"
  ShutdownFunc :: "'s lifecycle option"
  requestExporter :: bool
  marshaler :: nat
  unmarshaler :: nat
  signal :: DataType
  set' :: CreateSettings
  obsrep :: ObsReport
  queueSender :: addr
  obsrepSender :: addr
  retrySender :: addr
  timeoutSender :: addr
  onTemporaryFailure :: "addr option"
  consumerOptions :: "Capabilities list"

text \<open>
  An \<open>Option\<close> is a function on the exporter under construction; the six constructors of
  \<open>common.go\<close> are the options there are. \<open>onTemporaryFailure\<close> is a method value of a queue
  sender, kept as the address of that sender.
\<close>

datatype 's Option' =
    WithStart "'s lifecycle option"
  | WithShutdown "'s lifecycle option"
  | WithTimeout TimeoutSettings
  | WithRetry RetrySettings
  | WithQueue QueueSettings
  | WithCapabilities Capabilities

definition retry_disabled_message :: string where
  "retry_disabled_message =
     ''Exporting failed. Try enabling retry_on_failure config option to retry on retryable errors''"

definition queue_disabled_message :: string where
  "queue_disabled_message =
     ''Exporting failed. Dropping data. Try enabling sending_queue to survive temporary failures.''"

definition set_timeout_cfg :: "addr \<Rightarrow> TimeoutSettings \<Rightarrow> store \<Rightarrow> store" where
  "set_timeout_cfg a c st =
     (case cells st a of
        None \<Rightarrow> st
      | Some s \<Rightarrow>
          (case impl s of
             TimeoutSender old \<Rightarrow> st\<lparr>cells := (cells st)(a \<mapsto> s\<lparr>impl := TimeoutSender c\<rparr>)\<rparr>
           | _ \<Rightarrow> st))"

definition setOnTemporaryFailure ::
  "addr option \<Rightarrow> 's baseExporter \<times> store \<Rightarrow> 's baseExporter \<times> store" where
  "setOnTemporaryFailure h bs =
     (case bs of (be, st) \<Rightarrow>
        (be\<lparr>onTemporaryFailure := h\<rparr>,
         (case cells st (retrySender be) of
            None \<Rightarrow> st
          | Some s \<Rightarrow>
              (case impl s of
                 RetrySender c cs old \<Rightarrow>
                   st\<lparr>cells := (cells st)(retrySender be \<mapsto> s\<lparr>impl := RetrySender c cs h\<rparr>)\<rparr>
               | _ \<Rightarrow> st))))"

text \<open>
  Modelled from the spec: \<open>newQueueSender\<close>, which \<open>WithQueue\<close> calls and which is defined
  outside \<open>common.go\<close>. An invalid (negative) capacity aborts construction: the queue
  sender makes its bounded queue of capacity \<open>QueueSize\<close>, and making it panics. Otherwise
  the queue sender is a fresh object carrying the arguments.
\<close>

definition newQueueSender ::
  "QueueSettings \<Rightarrow> CreateSettings \<Rightarrow> DataType \<Rightarrow> nat \<Rightarrow> nat \<Rightarrow> store \<Rightarrow> (addr \<times> store) outcome" where
  "newQueueSender config cset sig marsh unmarsh st =
     (if QueueSize config < 0 then Panics ''makechan: size out of range''
      else Returns (alloc (QueueSender config cset sig marsh unmarsh) st))"

fun applyOption ::
  "'s Option' \<Rightarrow> 's baseExporter \<times> store \<Rightarrow> ('s baseExporter \<times> store) outcome" where
  "applyOption (WithStart start) (be, st) = Returns (be\<lparr>StartFunc := start\<rparr>, st)"
| "applyOption (WithShutdown shutdown) (be, st) = Returns (be\<lparr>ShutdownFunc := shutdown\<rparr>, st)"
| "applyOption (WithTimeout timeoutSettings) (be, st) =
     Returns (be, set_timeout_cfg (timeoutSender be) timeoutSettings st)"
| "applyOption (WithRetry config) (be, st) =
     (if \<not> retryEnabled config then
        (case alloc (ErrorLoggingRequestSender (Logger (set' be)) retry_disabled_message) st of
           (a, st') \<Rightarrow> Returns (be\<lparr>retrySender := a\<rparr>, st'))
      else
        (case alloc (RetrySender config (set' be) (onTemporaryFailure be)) st of
           (a, st') \<Rightarrow> Returns (be\<lparr>retrySender := a\<rparr>, st')))"
| "applyOption (WithQueue config) (be, st) =
     (if requestExporter be then
        Panics ''queueing is not available for the new request exporters yet''
      else if \<not> queueEnabled config then
        (case alloc (ErrorLoggingRequestSender (Logger (set' be)) queue_disabled_message) st of
           (a, st') \<Rightarrow> Returns (be\<lparr>queueSender := a\<rparr>, st'))
      else
        (case newQueueSender config (set' be) (signal be) (marshaler be) (unmarshaler be) st of
           Returns (qs, st') \<Rightarrow>
             Returns (setOnTemporaryFailure (Some qs) (be\<lparr>queueSender := qs\<rparr>, st'))
         | Panics p \<Rightarrow> Panics p
         | OutOfFuel \<Rightarrow> OutOfFuel))"
| "applyOption (WithCapabilities capabilities) (be, st) =
     Returns (be\<lparr>consumerOptions := consumerOptions be @ [capabilities]\<rparr>, st)"

fun applyOptions ::
  "'s Option' list \<Rightarrow> 's baseExporter \<times> store \<Rightarrow> ('s baseExporter \<times> store) outcome" where
  "applyOptions [] bs = Returns bs"
| "applyOptions (op # ops) bs =
     (case applyOption op bs of
        Returns bs' \<Rightarrow> applyOptions ops bs'
      | Panics p \<Rightarrow> Panics p
      | OutOfFuel \<Rightarrow> OutOfFuel)"

definition connectSenders :: "'s baseExporter \<Rightarrow> store \<Rightarrow> store" where
  "connectSenders be st =
     setNextSender (retrySender be) (timeoutSender be)
       (setNextSender (obsrepSender be) (retrySender be)
          (setNextSender (queueSender be) (obsrepSender be) st))"

text \<open>
  The struct literal of \<open>newBaseExporter\<close>: four fresh senders, in the order the literal
  evaluates them, and the exporter that points to them. \<open>osf\<close> builds the observability
  sender from the report.
\<close>

definition baseExporter_literal ::
  "ObsReport \<Rightarrow> CreateSettings \<Rightarrow> DataType \<Rightarrow> bool \<Rightarrow> nat \<Rightarrow> nat \<Rightarrow>
   (ObsReport \<Rightarrow> sender_impl) \<Rightarrow> store \<Rightarrow> 's baseExporter \<times> store" where
  "baseExporter_literal obsReport cset sig reqExp marsh unmarsh osf st =
     (case alloc BaseRequestSender st of (q, st1) \<Rightarrow>
      case alloc (osf obsReport) st1 of (ob, st2) \<Rightarrow>
      case alloc BaseRequestSender st2 of (r, st3) \<Rightarrow>
      case alloc (TimeoutSender NewDefaultTimeoutSettings) st3 of (t, st4) \<Rightarrow>
        (\<lparr>StartFunc = None, ShutdownFunc = None,
          requestExporter = reqExp,
          marshaler = marsh, unmarshaler = unmarsh, signal = sig,
          set' = cset, obsrep = obsReport,
          queueSender = q, obsrepSender = ob, retrySender = r, timeoutSender = t,
          onTemporaryFailure = None, consumerOptions = []\<rparr>, st4))"

text \<open>
  \<open>newBaseExporter\<close>. \<open>NewObsReport\<close> is defined elsewhere; its result is the first argument.
  The result \<open>Inl err\<close> is the source's \<open>return nil, err\<close>.
\<close>

definition newBaseExporter ::
  "error + ObsReport \<Rightarrow> CreateSettings \<Rightarrow> DataType \<Rightarrow> bool \<Rightarrow> nat \<Rightarrow> nat \<Rightarrow>
   (ObsReport \<Rightarrow> sender_impl) \<Rightarrow> 's Option' list \<Rightarrow> store \<Rightarrow>
   (error + 's baseExporter \<times> store) outcome" where
  "newBaseExporter newObsReport cset sig reqExp marsh unmarsh osf options st =
     (case newObsReport of
        Inl err \<Rightarrow> Returns (Inl err)
      | Inr obsReport \<Rightarrow>
          (case applyOptions options
                  (baseExporter_literal obsReport cset sig reqExp marsh unmarsh osf st) of
             Returns (be, st') \<Rightarrow> Returns (Inr (be, connectSenders be st'))
           | Panics p \<Rightarrow> Panics p
           | OutOfFuel \<Rightarrow> OutOfFuel))"

text \<open>\<open>send\<close> sends the request using the first sender in the chain.\<close>

definition send :: "'s externals \<Rightarrow> nat \<Rightarrow> store \<Rightarrow> 's baseExporter \<Rightarrow> 's send_fn" where
  "send X fuel st be req w = sender_send X fuel st (Some (queueSender be)) req w"

definition Start ::
  "'s externals \<Rightarrow> store \<Rightarrow> 's baseExporter \<Rightarrow> 's world \<Rightarrow> (error option \<times> 's world) outcome" where
  "Start X st be w =
     (case call_func (StartFunc be) (record_call (StartCalled Transport) w) of
        (Some err, w1) \<Rightarrow> Returns (Some err, w1)
      | (None, w1) \<Rightarrow> sender_Start X st (queueSender be) w1)"

definition Shutdown ::
  "'s externals \<Rightarrow> store \<Rightarrow> 's baseExporter \<Rightarrow> 's world \<Rightarrow> (error option \<times> 's world) outcome" where
  "Shutdown X st be w =
     (case sender_Shutdown X st (retrySender be) w of
        Returns (e1, w1) \<Rightarrow>
          (case sender_Shutdown X st (queueSender be) w1 of
             Returns (e2, w2) \<Rightarrow>
               (case call_func (ShutdownFunc be) (record_call (ShutdownCalled Transport) w2) of
                  (e3, w3) \<Rightarrow> Returns (Combine [e1, e2, e3], w3))
           | Panics p \<Rightarrow> Panics p
           | OutOfFuel \<Rightarrow> OutOfFuel)
      | Panics p \<Rightarrow> Panics p
      | OutOfFuel \<Rightarrow> OutOfFuel)"

section \<open>Notions used to state properties of the chain\<close>

definition impl_of :: "store \<Rightarrow> addr \<Rightarrow> sender_impl option" where
  "impl_of st a = map_option impl (cells st a)"

definition next_of :: "store \<Rightarrow> addr \<Rightarrow> addr option" where
  "next_of st a = (case cells st a of None \<Rightarrow> None | Some s \<Rightarrow> nextSender s)"

text \<open>The four sender fields of the exporter are live, pairwise different objects.\<close>

definition slots_ok :: "'s baseExporter \<Rightarrow> store \<Rightarrow> bool" where
  "slots_ok be st \<longleftrightarrow>
     distinct [queueSender be, obsrepSender be, retrySender be, timeoutSender be] \<and>
     (\<forall>a \<in> set [queueSender be, obsrepSender be, retrySender be, timeoutSender be].
        a < fresh st \<and> a \<in> dom (cells st))"

datatype slot = QueueSlot | ObsrepSlot | RetrySlot | TimeoutSlot

fun slot_addr :: "'s baseExporter \<Rightarrow> slot \<Rightarrow> addr" where
  "slot_addr be QueueSlot = queueSender be"
| "slot_addr be ObsrepSlot = obsrepSender be"
| "slot_addr be RetrySlot = retrySender be"
| "slot_addr be TimeoutSlot = timeoutSender be"

text \<open>An option replaces a slot when it assigns a new sender to the exporter's field.\<close>

fun replaces :: "'s Option' \<Rightarrow> slot \<Rightarrow> bool" where
  "replaces (WithQueue c) QueueSlot = True"
| "replaces (WithRetry c) RetrySlot = True"
| "replaces op sl = False"

text \<open>The no-op pass-through sender is \<open>&baseRequestSender{}\<close>.\<close>

definition pass_through :: "store \<Rightarrow> addr \<Rightarrow> bool" where
  "pass_through st a \<longleftrightarrow> impl_of st a = Some BaseRequestSender"

fun combined_errors :: "error option \<Rightarrow> error list" where
  "combined_errors None = []"
| "combined_errors (Some e) = errors_of e"

definition empty_store :: store where
  "empty_store = \<lparr>cells = Map.empty, fresh = 0\<rparr>"

text \<open>
  Externals for concrete runs: the retry and queue senders fail to shut down, nothing
  else fails; every constructed sender's \<open>send\<close> forwards, and the timeout sender hands the
  request to a transport that rejects requests of more than 100 items.
\<close>

definition sample_externals :: "unit externals" where
  "sample_externals =
     \<lparr>senderStart = (\<lambda>i s. (None, s)),
      senderShutdown = (\<lambda>i s. case i of
                          RetrySender c cs h \<Rightarrow> (Some (Error ''retry''), s)
                        | QueueSender c cs d m u \<Rightarrow> (Some (Error ''queue''), s)
                        | _ \<Rightarrow> (None, s)),
      senderSend = (\<lambda>i nxt req w. case i of
                      TimeoutSender c \<Rightarrow>
                        Returns (if Count req > 100 then Some (Error ''too large'') else None, w)
                    | _ \<Rightarrow> nxt req w)\<rparr>"

definition empty_world :: "unit world" where
  "empty_world = \<lparr>calls = [], logged = [], ext = ()\<rparr>"

section \<open>The bounded in-memory queue\<close>

text \<open>
  Modelled from the spec: the state of the bounded in-memory queue built by
  \<open>NewBoundedMemoryQueue\<close>, whose source is not among the files (its tests are). The spec
  gives a channel-like FIFO of capacity \<open>C\<close> and \<open>W\<close> long-lived workers; each worker blocks on
  dequeue, invokes the callback on the request it took, and comes back when the callback
  returns; workers exit when the queue is closed and empty. A worker is about to dequeue
  (\<open>Idle\<close>), blocked on dequeue (\<open>Blocked\<close>), holding a request it took (\<open>Holding\<close>), inside
  the callback (\<open>Running\<close>), or gone (\<open>Exited\<close>).
\<close>

datatype 'a worker = Idle | Blocked | Holding 'a | Running 'a | Exited

text \<open>
  Modelled from the spec: the queue record. \<open>items\<close> is the buffer, oldest first. The last
  three fields observe a run and steer nothing: the requests \<open>Produce\<close> accepted, the
  requests workers took, and the requests handed to the callback, each in order of
  occurrence.
\<close>

record 'a queue =
  capacity :: nat
  numConsumers :: nat
  items :: "'a list"
  workers :: "'a worker list"
  stopped :: bool
  accepted :: "'a list"
  dequeued :: "'a list"
  consumed :: "'a list"

text \<open>
  Modelled from the spec: \<open>NewBoundedMemoryQueue(capacity, numConsumers)\<close>, a queue with
  capacity \<open>C \<ge> 0\<close> and worker count \<open>W \<ge> 0\<close>, empty, not started.
\<close>

definition NewBoundedMemoryQueue :: "nat \<Rightarrow> nat \<Rightarrow> 'a queue" where
  "NewBoundedMemoryQueue C W =
     \<lparr>capacity = C, numConsumers = W, items = [], workers = [], stopped = False,
      accepted = [], dequeued = [], consumed = []\<rparr>"

text \<open>
  Modelled from the spec: \<open>Size\<close>, which counts items currently buffered (not in flight at
  a worker).
\<close>

definition Size :: "'a queue \<Rightarrow> int" where
  "Size q = int (length (items q))"

text \<open>
  Modelled from the spec: \<open>Start\<close>, which spawns the \<open>W\<close> workers. It acts once, on a queue
  that has no workers and is not shut down.
\<close>

definition queue_Start :: "'a queue \<Rightarrow> 'a queue" where
  "queue_Start q =
     (if workers q = [] \<and> \<not> stopped q then q\<lparr>workers := replicate (numConsumers q) Idle\<rparr>
      else q)"

text \<open>Modelled from the spec: the position of the first worker a predicate holds of.\<close>

fun index_of :: "('a \<Rightarrow> bool) \<Rightarrow> 'a list \<Rightarrow> nat option" where
  "index_of P [] = None"
| "index_of P (x # xs) = (if P x then Some 0 else map_option Suc (index_of P xs))"

text \<open>
  Modelled from the spec: \<open>Produce\<close>. It returns true iff the request was enqueued; false
  means the queue is full (bounded reject, no blocking) or closed. As on a channel, a
  request offered while a worker is blocked on dequeue is handed to that worker directly;
  otherwise it is buffered when there is room. With \<open>C = 0\<close> this is the spec's direct
  hand-off: success iff a worker is currently blocked on dequeue. Of several blocked
  workers the first in the list takes the request; the workers are alike, so nothing
  depends on which.
\<close>

definition Produce :: "'a \<Rightarrow> 'a queue \<Rightarrow> bool \<times> 'a queue" where
  "Produce r q =
     (if stopped q then (False, q)
      else
        (case index_of (\<lambda>w. w = Blocked) (workers q) of
           Some i \<Rightarrow>
             (True, q\<lparr>workers := (workers q)[i := Holding r],
                      accepted := accepted q @ [r],
                      dequeued := dequeued q @ [r]\<rparr>)
         | None \<Rightarrow>
             if length (items q) < capacity q
             then (True, q\<lparr>items := items q @ [r], accepted := accepted q @ [r]\<rparr>)
             else (False, q)))"

text \<open>
  Modelled from the spec: one step of worker \<open>i\<close>. An idle worker takes the oldest buffered
  request, or blocks on dequeue when the buffer is empty, or exits when the queue is
  closed and empty. A worker holding a request invokes the callback on it; a worker in
  the callback returns from it. A blocked worker waits for \<open>Produce\<close>, and exits once the
  queue is closed.
\<close>

definition work :: "nat \<Rightarrow> 'a queue \<Rightarrow> 'a queue" where
  "work i q =
     (if i < length (workers q) then
        (case workers q ! i of
           Idle \<Rightarrow>
             (case items q of
                x # xs \<Rightarrow> q\<lparr>items := xs, workers := (workers q)[i := Holding x],
                             dequeued := dequeued q @ [x]\<rparr>
              | [] \<Rightarrow> if stopped q then q\<lparr>workers := (workers q)[i := Exited]\<rparr>
                      else q\<lparr>workers := (workers q)[i := Blocked]\<rparr>)
         | Blocked \<Rightarrow> if stopped q then q\<lparr>workers := (workers q)[i := Exited]\<rparr> else q
         | Holding x \<Rightarrow> q\<lparr>workers := (workers q)[i := Running x],
                            consumed := consumed q @ [x]\<rparr>
         | Running x \<Rightarrow> q\<lparr>workers := (workers q)[i := Idle]\<rparr>
         | Exited \<Rightarrow> q)
      else q)"

text \<open>
  Modelled from the spec: the start of \<open>Shutdown\<close>. The queue stops accepting producers, and
  closing it wakes the workers blocked on dequeue, which find it closed and empty and exit.
\<close>

definition shutdown_begin :: "'a queue \<Rightarrow> 'a queue" where
  "shutdown_begin q =
     q\<lparr>stopped := True,
       workers := map (\<lambda>w. if w = Blocked then Exited else w) (workers q)\<rparr>"

text \<open>
  Modelled from the spec: how far a worker of a closed queue is from having exited. Every
  step of a live worker of a closed queue lowers the sum defined next.
\<close>

fun weight :: "'a worker \<Rightarrow> nat" where
  "weight Exited = 0"
| "weight Blocked = 1"
| "weight Idle = 1"
| "weight (Running x) = 2"
| "weight (Holding x) = 3"

text \<open>
  Modelled from the spec: the sum over the queue, three for each buffered request plus the
  weight of each worker.
\<close>

definition remaining :: "'a queue \<Rightarrow> nat" where
  "remaining q = 3 * length (items q) + sum_list (map weight (workers q))"

text \<open>
  Modelled from the spec: \<open>Shutdown\<close> drains the workers. After the queue is closed the
  workers keep running until each has exited; \<open>drain\<close> runs the first live worker, step by
  step, until none is left, and \<open>Shutdown\<close> returns the queue as it is then.
\<close>

function drain :: "'a queue \<Rightarrow> 'a queue" where
  "drain q =
     (if stopped q then
        (case index_of (\<lambda>w. w \<noteq> Exited) (workers q) of
           None \<Rightarrow> q
         | Some i \<Rightarrow> drain (work i q))
      else q)"
  by pat_completeness auto
termination
proof (relation "measure remaining")
  show "wf (measure remaining)" by simp
next
  fix q :: "'a queue" and i
  assume st: "stopped q" and ix: "index_of (\<lambda>w. w \<noteq> Exited) (workers q) = Some i"
  have idx: "index_of P xs = Some k \<Longrightarrow> k < length xs \<and> P (xs ! k)"
    for P :: "'a worker \<Rightarrow> bool" and xs k
    by (induction xs arbitrary: k) (auto split: if_splits)
  have upd: "k < length ws \<Longrightarrow>
      sum_list (map weight (ws[k := w])) + weight (ws ! k) = sum_list (map weight ws) + weight w"
    for ws :: "'a worker list" and k w
    by (induction ws arbitrary: k) (auto split: nat.splits)
  from idx [OF ix] have i: "i < length (workers q)" and live: "workers q ! i \<noteq> Exited"
    by simp_all
  have "remaining (work i q) < remaining q"
  proof (cases "workers q ! i")
    case Idle
    then show ?thesis
      using i st upd [OF i, of Exited] upd [OF i, of "Holding (hd (items q))"]
      by (cases "items q") (auto simp: work_def remaining_def)
  next
    case Blocked
    then show ?thesis using i st upd [OF i, of Exited] by (auto simp: work_def remaining_def)
  next
    case (Holding x)
    then show ?thesis using i upd [OF i, of "Running x"] by (auto simp: work_def remaining_def)
  next
    case (Running x)
    then show ?thesis using i upd [OF i, of Idle] by (auto simp: work_def remaining_def)
  next
    case Exited
    with live show ?thesis by simp
  qed
  then show "(work i q, q) \<in> measure remaining" by simp
qed

declare drain.simps [simp del]

text \<open>
  Modelled from the spec: \<open>Shutdown\<close>, which stops producers, drains the workers and
  returns.
\<close>

definition queue_Shutdown :: "'a queue \<Rightarrow> 'a queue" where
  "queue_Shutdown q = drain (shutdown_begin q)"

text \<open>
  Modelled from the spec: what can happen to a queue, in any order and any number of
  times: \<open>Start\<close>, a \<open>Produce\<close> by some producer, a step of some worker, the start of
  \<open>Shutdown\<close>. A run is a list of these.
\<close>

datatype 'a action = DoStart | DoProduce 'a | DoWork nat | DoShutdown

text \<open>Modelled from the spec: the effect of one of these on the queue.\<close>

fun step :: "'a action \<Rightarrow> 'a queue \<Rightarrow> 'a queue" where
  "step DoStart q = queue_Start q"
| "step (DoProduce r) q = snd (Produce r q)"
| "step (DoWork i) q = work i q"
| "step DoShutdown q = shutdown_begin q"

text \<open>Modelled from the spec: the queue after a run, first action first.\<close>

fun run :: "'a action list \<Rightarrow> 'a queue \<Rightarrow> 'a queue" where
  "run [] q = q"
| "run (a # acts) q = run acts (step a q)"

text \<open>Modelled from the spec: the requests held by workers that have not yet invoked the callback.\<close>

fun held :: "'a worker \<Rightarrow> 'a list" where
  "held (Holding x) = [x]"
| "held w = []"

text \<open>Modelled from the spec: those requests over all workers, in worker order.\<close>

definition holding :: "'a worker list \<Rightarrow> 'a list" where
  "holding ws = concat (map held ws)"

text \<open>
  Modelled from the spec: what every run keeps true of the queue. The buffer never exceeds
  the capacity; the accepted requests are those taken by workers followed by those
  buffered; a worker is blocked on dequeue only while the buffer is empty and the queue
  open, and has exited only once the queue is closed and empty; with a single worker the
  requests taken are those handed to the callback followed by the one being held.
\<close>

definition queue_inv :: "nat \<Rightarrow> nat \<Rightarrow> 'a queue \<Rightarrow> bool" where
  "queue_inv C W q \<longleftrightarrow>
     capacity q = C \<and> numConsumers q = W \<and>
     length (items q) \<le> capacity q \<and>
     accepted q = dequeued q @ items q \<and>
     (Blocked \<in> set (workers q) \<longrightarrow> items q = [] \<and> \<not> stopped q) \<and>
     (Exited \<in> set (workers q) \<longrightarrow> items q = [] \<and> stopped q) \<and>
     (workers q = [] \<or> length (workers q) = W) \<and>
     (length (workers q) \<le> 1 \<longrightarrow> dequeued q = consumed q @ holding (workers q))"

section \<open>The queue sender's workers\<close>

text \<open>
  Modelled from the spec: the state a queue sender adds to the state of the transport,
  namely the queue it owns (the queue sender is built by \<open>newQueueSender\<close>, which is
  defined outside \<open>common.go\<close>).
\<close>

record 't pipeline =
  sending_queue :: "Request queue"
  transport :: 't

text \<open>
  Modelled from the spec: \<open>Start\<close> of the queue sender, defined outside \<open>common.go\<close>. It
  starts the workers of its queue; starting the in-memory queue returns nil.
\<close>

definition queueSender_Start :: "'t pipeline lifecycle" where
  "queueSender_Start s = (None, s\<lparr>sending_queue := queue_Start (sending_queue s)\<rparr>)"

text \<open>
  Modelled from the spec: externals whose queue sender starts as above; what the other
  senders do stays a parameter.
\<close>

definition with_queue_sender :: "'t pipeline externals \<Rightarrow> 't pipeline externals" where
  "with_queue_sender X =
     X\<lparr>senderStart := (\<lambda>i. case i of
                          QueueSender c cs d m u \<Rightarrow> queueSender_Start
                        | _ \<Rightarrow> senderStart X i)\<rparr>"

text \<open>
  Modelled from the spec: a user's start or shutdown hook is an external collaborator. It
  acts on the transport; the queue is a private field of the queue sender, out of its
  reach.
\<close>

definition lift_transport :: "'t lifecycle \<Rightarrow> 't pipeline lifecycle" where
  "lift_transport f s = (case f (transport s) of (e, t) \<Rightarrow> (e, s\<lparr>transport := t\<rparr>))"

text \<open>
  Externals and a world for concrete runs of \<open>Start\<close>: a queue sender whose start fails
  (its storage is missing), and a world whose queue of capacity 1000 with 10 workers has
  not been started.
\<close>

definition failing_queue_externals :: "unit pipeline externals" where
  "failing_queue_externals =
     \<lparr>senderStart = (\<lambda>i s. case i of
                        QueueSender c cs d m u \<Rightarrow> (Some (Error ''no storage''), s)
                      | _ \<Rightarrow> (None, s)),
      senderShutdown = (\<lambda>i s. (None, s)),
      senderSend = (\<lambda>i nxt req w. nxt req w)\<rparr>"

definition idle_pipeline_world :: "unit pipeline world" where
  "idle_pipeline_world =
     \<lparr>calls = [], logged = [],
      ext = \<lparr>sending_queue = NewBoundedMemoryQueue 1000 10, transport = ()\<rparr>\<rparr>"

section \<open>Properties\<close>

lemma impl_of_set_timeout_cfg:
  "impl_of (set_timeout_cfg t c st) a =
     (if a = t \<and> (\<exists>old. impl_of st t = Some (TimeoutSender old)) then Some (TimeoutSender c)
      else impl_of st a)"
  by (auto simp: impl_of_def set_timeout_cfg_def split: option.splits sender_impl.splits)

lemma fresh_set_timeout_cfg [simp]: "fresh (set_timeout_cfg t c st) = fresh st"
  by (simp add: set_timeout_cfg_def split: option.splits sender_impl.splits)

lemma dom_set_timeout_cfg [simp]: "dom (cells (set_timeout_cfg t c st)) = dom (cells st)"
  by (auto simp: set_timeout_cfg_def split: option.splits sender_impl.splits)

lemma slots_ok_set_timeout_cfg: "slots_ok be st \<Longrightarrow> slots_ok be (set_timeout_cfg t c st)"
  by (simp add: slots_ok_def)

lemma slots_ok_alloc_queue:
  "slots_ok be st \<Longrightarrow> alloc i st = (a, st') \<Longrightarrow> slots_ok (be\<lparr>queueSender := a\<rparr>) st'"
  by (auto simp: slots_ok_def alloc_def)

lemma slots_ok_alloc_retry:
  "slots_ok be st \<Longrightarrow> alloc i st = (a, st') \<Longrightarrow> slots_ok (be\<lparr>retrySender := a\<rparr>) st'"
  by (auto simp: slots_ok_def alloc_def)

lemma slots_ok_setOnTemporaryFailure:
  "slots_ok be st \<Longrightarrow> setOnTemporaryFailure h (be, st) = (be', st') \<Longrightarrow> slots_ok be' st'"
  by (auto simp: slots_ok_def setOnTemporaryFailure_def split: option.splits sender_impl.splits)

lemma WithQueue_enabled_Returns:
  assumes "applyOption (WithQueue c) (be, st) = Returns (be', st')" and "queueEnabled c"
  obtains qs st1 where
    "alloc (QueueSender c (set' be) (signal be) (marshaler be) (unmarshaler be)) st = (qs, st1)"
    and "setOnTemporaryFailure (Some qs) (be\<lparr>queueSender := qs\<rparr>, st1) = (be', st')"
    and "0 \<le> QueueSize c" and "\<not> requestExporter be"
proof -
  from assms have r: "\<not> requestExporter be" and n: "0 \<le> QueueSize c"
    by (auto simp: newQueueSender_def split: if_splits)
  obtain qs st1 where
    a: "alloc (QueueSender c (set' be) (signal be) (marshaler be) (unmarshaler be)) st = (qs, st1)"
    by (cases "alloc (QueueSender c (set' be) (signal be) (marshaler be) (unmarshaler be)) st")
  with assms r n have "setOnTemporaryFailure (Some qs) (be\<lparr>queueSender := qs\<rparr>, st1) = (be', st')"
    by (simp add: newQueueSender_def)
  with a n r that show ?thesis by blast
qed

lemma applyOption_slots_ok:
  assumes "slots_ok be st" and "applyOption op (be, st) = Returns (be', st')"
  shows "slots_ok be' st'"
proof (cases op)
  case (WithStart f)
  with assms show ?thesis by (auto simp: slots_ok_def)
next
  case (WithShutdown f)
  with assms show ?thesis by (auto simp: slots_ok_def)
next
  case (WithTimeout c)
  with assms show ?thesis by (auto intro: slots_ok_set_timeout_cfg)
next
  case (WithRetry c)
  with assms show ?thesis
    by (auto split: if_splits prod.splits intro: slots_ok_alloc_retry)
next
  case (WithQueue c)
  show ?thesis
  proof (cases "queueEnabled c")
    case False
    with assms WithQueue show ?thesis
      by (auto split: if_splits prod.splits intro: slots_ok_alloc_queue)
  next
    case True
    from assms(2) [unfolded WithQueue] True obtain qs st1 where
      a: "alloc (QueueSender c (set' be) (signal be) (marshaler be) (unmarshaler be)) st = (qs, st1)"
      and s: "setOnTemporaryFailure (Some qs) (be\<lparr>queueSender := qs\<rparr>, st1) = (be', st')"
      by (rule WithQueue_enabled_Returns)
    from slots_ok_setOnTemporaryFailure [OF slots_ok_alloc_queue [OF assms(1) a] s]
    show ?thesis .
  qed
next
  case (WithCapabilities c)
  with assms show ?thesis by (auto simp: slots_ok_def)
qed

lemma applyOptions_slots_ok:
  "slots_ok be st \<Longrightarrow> applyOptions ops (be, st) = Returns (be', st') \<Longrightarrow> slots_ok be' st'"
proof (induction ops arbitrary: be st)
  case Nil
  then show ?case by simp
next
  case (Cons op ops)
  then show ?case
    by (auto split: outcome.splits dest: applyOption_slots_ok)
qed

lemma impl_of_setNextSender [simp]: "impl_of (setNextSender a n st) b = impl_of st b"
  by (simp add: impl_of_def setNextSender_def split: option.splits)

lemma next_of_setNextSender:
  "next_of (setNextSender a n st) b =
     (if b = a \<and> cells st a \<noteq> None then Some n else next_of st b)"
  by (auto simp: next_of_def setNextSender_def split: option.splits)

lemma cells_setNextSender_None [simp]:
  "cells (setNextSender a n st) b = None \<longleftrightarrow> cells st b = None"
  by (simp add: setNextSender_def split: option.splits)

lemma impl_of_connectSenders [simp]: "impl_of (connectSenders be st) a = impl_of st a"
  by (simp add: connectSenders_def)

lemma connectSenders_links:
  assumes "slots_ok be st"
  shows "next_of (connectSenders be st) (queueSender be) = Some (obsrepSender be)"
    and "next_of (connectSenders be st) (obsrepSender be) = Some (retrySender be)"
    and "next_of (connectSenders be st) (retrySender be) = Some (timeoutSender be)"
  using assms
  by (auto simp: connectSenders_def next_of_setNextSender slots_ok_def)

lemma literal_facts:
  assumes "baseExporter_literal r cs sig re m u osf st = (be, st')"
  shows "slots_ok be st'"
    and "impl_of st' (queueSender be) = Some BaseRequestSender"
    and "impl_of st' (obsrepSender be) = Some (osf r)"
    and "impl_of st' (retrySender be) = Some BaseRequestSender"
    and "impl_of st' (timeoutSender be) = Some (TimeoutSender NewDefaultTimeoutSettings)"
    and "requestExporter be = re"
    and "StartFunc be = None" and "ShutdownFunc be = None"
  using assms
  by (auto simp: baseExporter_literal_def alloc_def slots_ok_def impl_of_def)

lemma impl_of_alloc:
  "alloc i st = (a, st') \<Longrightarrow> impl_of st' b = (if b = fresh st then Some i else impl_of st b)"
  by (auto simp: alloc_def impl_of_def)

lemma impl_of_setOnTemporaryFailure:
  "setOnTemporaryFailure h (be, st) = (be', st') \<Longrightarrow> b \<noteq> retrySender be \<Longrightarrow>
     impl_of st' b = impl_of st b"
  by (auto simp: setOnTemporaryFailure_def impl_of_def split: option.splits sender_impl.splits)

lemma impl_of_setOnTemporaryFailure_retry:
  "setOnTemporaryFailure h (be, st) = (be', st') \<Longrightarrow> impl_of st (retrySender be) = Some i \<Longrightarrow>
     \<forall>c cs old. i \<noteq> RetrySender c cs old \<Longrightarrow> impl_of st' (retrySender be) = Some i"
  by (auto simp: setOnTemporaryFailure_def impl_of_def split: option.splits sender_impl.splits)

lemma slots_of_setOnTemporaryFailure:
  "setOnTemporaryFailure h (be, st) = (be', st') \<Longrightarrow>
     queueSender be' = queueSender be \<and> obsrepSender be' = obsrepSender be \<and>
     retrySender be' = retrySender be \<and> timeoutSender be' = timeoutSender be \<and>
     requestExporter be' = requestExporter be"
  by (auto simp: setOnTemporaryFailure_def)

lemma applyOption_requestExporter:
  "applyOption op (be, st) = Returns (be', st') \<Longrightarrow> requestExporter be' = requestExporter be"
  by (cases op)
     (auto simp: setOnTemporaryFailure_def newQueueSender_def split: if_splits prod.splits)






lemma applyOption_queue_kept:
  assumes "slots_ok be st" and "applyOption op (be, st) = Returns (be', st')"
    and "\<forall>c. op \<noteq> WithQueue c"
  shows "queueSender be' = queueSender be \<and> impl_of st' (queueSender be) = impl_of st (queueSender be)"
  using assms
  by (cases op)
     (auto simp: slots_ok_def impl_of_set_timeout_cfg impl_of_alloc split: if_splits prod.splits)

lemma applyOption_retry_kept:
  assumes "slots_ok be st" and "applyOption op (be, st) = Returns (be', st')"
    and "\<forall>c. op \<noteq> WithRetry c"
    and "impl_of st (retrySender be) = Some i" and "\<forall>c cs old. i \<noteq> RetrySender c cs old"
  shows "retrySender be' = retrySender be \<and> impl_of st' (retrySender be) = Some i"
proof (cases op)
  case (WithQueue c)
  show ?thesis
  proof (cases "queueEnabled c")
    case False
    with assms WithQueue show ?thesis
      by (auto simp: slots_ok_def impl_of_alloc split: if_splits prod.splits)
  next
    case True
    from assms(2) [unfolded WithQueue] True obtain qs st1 where
      a: "alloc (QueueSender c (set' be) (signal be) (marshaler be) (unmarshaler be)) st = (qs, st1)"
      and s: "setOnTemporaryFailure (Some qs) (be\<lparr>queueSender := qs\<rparr>, st1) = (be', st')"
      by (rule WithQueue_enabled_Returns)
    from a assms have "impl_of st1 (retrySender be) = Some i"
      by (auto simp: impl_of_alloc slots_ok_def)
    with s assms(5) show ?thesis
      using impl_of_setOnTemporaryFailure_retry [OF s, of i] slots_of_setOnTemporaryFailure [OF s]
      by simp
  qed
qed (use assms in \<open>auto simp: slots_ok_def impl_of_set_timeout_cfg impl_of_alloc split: if_splits prod.splits\<close>)

lemma applyOption_obsrep_kept:
  assumes "slots_ok be st" and "applyOption op (be, st) = Returns (be', st')"
  shows "obsrepSender be' = obsrepSender be \<and> impl_of st' (obsrepSender be) = impl_of st (obsrepSender be)"
proof (cases op)
  case (WithQueue c)
  show ?thesis
  proof (cases "queueEnabled c")
    case False
    with assms WithQueue show ?thesis
      by (auto simp: slots_ok_def impl_of_alloc split: if_splits prod.splits)
  next
    case True
    from assms(2) [unfolded WithQueue] True obtain qs st1 where
      a: "alloc (QueueSender c (set' be) (signal be) (marshaler be) (unmarshaler be)) st = (qs, st1)"
      and s: "setOnTemporaryFailure (Some qs) (be\<lparr>queueSender := qs\<rparr>, st1) = (be', st')"
      by (rule WithQueue_enabled_Returns)
    from a assms have "impl_of st1 (obsrepSender be) = impl_of st (obsrepSender be)"
      by (auto simp: impl_of_alloc slots_ok_def)
    moreover from assms have "obsrepSender be \<noteq> retrySender be" by (simp add: slots_ok_def)
    ultimately show ?thesis
      using impl_of_setOnTemporaryFailure [OF s, of "obsrepSender be"]
        slots_of_setOnTemporaryFailure [OF s]
      by simp
  qed
qed (use assms in \<open>auto simp: slots_ok_def impl_of_set_timeout_cfg impl_of_alloc split: if_splits prod.splits\<close>)

lemma applyOption_timeout_kept:
  assumes "slots_ok be st" and "applyOption op (be, st) = Returns (be', st')"
    and "impl_of st (timeoutSender be) = Some (TimeoutSender c0)"
  shows "timeoutSender be' = timeoutSender be \<and> (\<exists>c1. impl_of st' (timeoutSender be) = Some (TimeoutSender c1))"
proof (cases op)
  case (WithQueue c)
  show ?thesis
  proof (cases "queueEnabled c")
    case False
    with assms WithQueue show ?thesis
      by (auto simp: slots_ok_def impl_of_alloc split: if_splits prod.splits)
  next
    case True
    from assms(2) [unfolded WithQueue] True obtain qs st1 where
      a: "alloc (QueueSender c (set' be) (signal be) (marshaler be) (unmarshaler be)) st = (qs, st1)"
      and s: "setOnTemporaryFailure (Some qs) (be\<lparr>queueSender := qs\<rparr>, st1) = (be', st')"
      by (rule WithQueue_enabled_Returns)
    from a assms have "impl_of st1 (timeoutSender be) = impl_of st (timeoutSender be)"
      by (auto simp: impl_of_alloc slots_ok_def)
    moreover from assms have "timeoutSender be \<noteq> retrySender be" by (simp add: slots_ok_def)
    ultimately show ?thesis
      using impl_of_setOnTemporaryFailure [OF s, of "timeoutSender be"]
        slots_of_setOnTemporaryFailure [OF s] assms(3)
      by simp
  qed
qed (use assms in \<open>auto simp: slots_ok_def impl_of_set_timeout_cfg impl_of_alloc split: if_splits prod.splits\<close>)

lemma applyOptions_slots:
  assumes "slots_ok be st" and "applyOptions ops (be, st) = Returns (be', st')"
  shows "obsrepSender be' = obsrepSender be \<and> timeoutSender be' = timeoutSender be \<and>
         impl_of st' (obsrepSender be) = impl_of st (obsrepSender be) \<and>
         ((\<exists>c. impl_of st (timeoutSender be) = Some (TimeoutSender c)) \<longrightarrow>
          (\<exists>c. impl_of st' (timeoutSender be) = Some (TimeoutSender c))) \<and>
         ((\<forall>op \<in> set ops. \<forall>c. op \<noteq> WithQueue c) \<longrightarrow>
            queueSender be' = queueSender be \<and>
            impl_of st' (queueSender be) = impl_of st (queueSender be)) \<and>
         ((\<forall>op \<in> set ops. \<forall>c. op \<noteq> WithRetry c) \<longrightarrow>
            (\<forall>i. impl_of st (retrySender be) = Some i \<and> (\<forall>c cs old. i \<noteq> RetrySender c cs old) \<longrightarrow>
               retrySender be' = retrySender be \<and> impl_of st' (retrySender be) = Some i))"
  using assms
proof (induction ops arbitrary: be st)
  case Nil
  then show ?case by simp
next
  case (Cons op ops)
  from Cons.prems obtain be1 st1 where
    1: "applyOption op (be, st) = Returns (be1, st1)" and
    2: "applyOptions ops (be1, st1) = Returns (be', st')"
    by (auto split: outcome.splits)
  have ok1: "slots_ok be1 st1" using applyOption_slots_ok [OF Cons.prems(1) 1] .
  note ih = Cons.IH [OF ok1 2]
  note ob = applyOption_obsrep_kept [OF Cons.prems(1) 1]
  have t: "timeoutSender be1 = timeoutSender be \<and>
           ((\<exists>c. impl_of st (timeoutSender be) = Some (TimeoutSender c)) \<longrightarrow>
            (\<exists>c. impl_of st1 (timeoutSender be) = Some (TimeoutSender c)))"
  proof (cases "\<exists>c. impl_of st (timeoutSender be) = Some (TimeoutSender c)")
    case True
    then show ?thesis using applyOption_timeout_kept [OF Cons.prems(1) 1] by blast
  next
    case False
    have "timeoutSender be1 = timeoutSender be"
      using 1
      by (cases op)
         (auto simp: setOnTemporaryFailure_def newQueueSender_def split: if_splits prod.splits)
    with False show ?thesis by simp
  qed
  have q: "(\<forall>c. op \<noteq> WithQueue c) \<longrightarrow> queueSender be1 = queueSender be \<and>
             impl_of st1 (queueSender be) = impl_of st (queueSender be)"
    using applyOption_queue_kept [OF Cons.prems(1) 1] by blast
  have r: "(\<forall>c. op \<noteq> WithRetry c) \<longrightarrow>
             (\<forall>i. impl_of st (retrySender be) = Some i \<and> (\<forall>c cs old. i \<noteq> RetrySender c cs old) \<longrightarrow>
                retrySender be1 = retrySender be \<and> impl_of st1 (retrySender be) = Some i)"
    using applyOption_retry_kept [OF Cons.prems(1) 1] by blast
  show ?case
  proof (intro conjI impI allI)
    show "obsrepSender be' = obsrepSender be" using ih ob by simp
    show "timeoutSender be' = timeoutSender be" using ih t by simp
    show "impl_of st' (obsrepSender be) = impl_of st (obsrepSender be)" using ih ob by simp
    show "\<exists>c. impl_of st' (timeoutSender be) = Some (TimeoutSender c)"
      if "\<exists>c. impl_of st (timeoutSender be) = Some (TimeoutSender c)"
      using that ih t by simp
    show "queueSender be' = queueSender be"
      if "\<forall>op \<in> set (op # ops). \<forall>c. op \<noteq> WithQueue c"
      using that ih q by simp
    show "impl_of st' (queueSender be) = impl_of st (queueSender be)"
      if "\<forall>op \<in> set (op # ops). \<forall>c. op \<noteq> WithQueue c"
      using that ih q by simp
    show "retrySender be' = retrySender be"
      if "\<forall>op \<in> set (op # ops). \<forall>c. op \<noteq> WithRetry c"
        and "impl_of st (retrySender be) = Some i \<and> (\<forall>c cs old. i \<noteq> RetrySender c cs old)" for i
      using that ih r by simp
    show "impl_of st' (retrySender be) = Some i"
      if "\<forall>op \<in> set (op # ops). \<forall>c. op \<noteq> WithRetry c"
        and "impl_of st (retrySender be) = Some i \<and> (\<forall>c cs old. i \<noteq> RetrySender c cs old)" for i
      using that ih r by simp
  qed
qed

lemma applyOptions_append:
  "applyOptions (xs @ ys) bs =
     (case applyOptions xs bs of
        Returns bs' \<Rightarrow> applyOptions ys bs'
      | Panics p \<Rightarrow> Panics p
      | OutOfFuel \<Rightarrow> OutOfFuel)"
  by (induction xs arbitrary: bs) (auto split: outcome.splits)

lemma newBaseExporter_Returns:
  assumes "newBaseExporter no cs sig re m u osf ops st0 = Returns (Inr (be, st))"
  obtains r be0 st4 st5 where "no = Inr r"
    and "baseExporter_literal r cs sig re m u osf st0 = (be0, st4)"
    and "applyOptions ops (be0, st4) = Returns (be, st5)"
    and "st = connectSenders be st5"
  using assms
  by (auto simp: newBaseExporter_def split: sum.splits outcome.splits prod.splits)
     (metis surj_pair)

lemma constructed_facts:
  assumes "newBaseExporter no cs sig re m u osf ops st0 = Returns (Inr (be, st))"
  shows "slots_ok be st"
    and "next_of st (queueSender be) = Some (obsrepSender be)"
    and "next_of st (obsrepSender be) = Some (retrySender be)"
    and "next_of st (retrySender be) = Some (timeoutSender be)"
    and "\<exists>r. no = Inr r \<and> impl_of st (obsrepSender be) = Some (osf r)"
    and "\<exists>c. impl_of st (timeoutSender be) = Some (TimeoutSender c)"
    and "(\<forall>op \<in> set ops. \<forall>c. op \<noteq> WithQueue c) \<Longrightarrow> pass_through st (queueSender be)"
    and "(\<forall>op \<in> set ops. \<forall>c. op \<noteq> WithRetry c) \<Longrightarrow> pass_through st (retrySender be)"
    and "requestExporter be = re"
proof -
  from assms obtain r be0 st4 st5 where no: "no = Inr r"
    and lit: "baseExporter_literal r cs sig re m u osf st0 = (be0, st4)"
    and ops: "applyOptions ops (be0, st4) = Returns (be, st5)"
    and st: "st = connectSenders be st5"
    by (rule newBaseExporter_Returns)
  note l = literal_facts [OF lit]
  have ok5: "slots_ok be st5" using applyOptions_slots_ok [OF l(1) ops] .
  note k = applyOptions_slots [OF l(1) ops]
  show "slots_ok be st"
    using ok5 by (auto simp: st slots_ok_def connectSenders_def setNextSender_def split: option.splits)
  show "next_of st (queueSender be) = Some (obsrepSender be)"
    and "next_of st (obsrepSender be) = Some (retrySender be)"
    and "next_of st (retrySender be) = Some (timeoutSender be)"
    using connectSenders_links [OF ok5] by (simp_all add: st)
  show "\<exists>r. no = Inr r \<and> impl_of st (obsrepSender be) = Some (osf r)"
    using k l(3) no by (simp add: st)
  show "\<exists>c. impl_of st (timeoutSender be) = Some (TimeoutSender c)"
    using k l(5) by (simp add: st)
  show "pass_through st (queueSender be)" if "\<forall>op \<in> set ops. \<forall>c. op \<noteq> WithQueue c"
    using that k l(2) by (simp add: st pass_through_def)
  show "pass_through st (retrySender be)" if "\<forall>op \<in> set ops. \<forall>c. op \<noteq> WithRetry c"
    using that k l(4) by (simp add: st pass_through_def)
  show "requestExporter be = re"
    using ops l(6)
  proof (induction ops arbitrary: be0 st4)
    case Nil
    then show ?case by simp
  next
    case (Cons op ops)
    then show ?case
      by (auto split: outcome.splits dest: applyOption_requestExporter)
  qed
qed

lemma replaces_queue: "replaces op QueueSlot \<longleftrightarrow> (\<exists>c. op = WithQueue c)"
  by (cases op) auto

lemma replaces_retry: "replaces op RetrySlot \<longleftrightarrow> (\<exists>c. op = WithRetry c)"
  by (cases op) auto

lemma sender_send_pass_through:
  "pass_through st a \<Longrightarrow>
     sender_send X (Suc n) st (Some a) req w = sender_send X n st (next_of st a) req w"
  by (auto simp: pass_through_def impl_of_def next_of_def split: option.splits)

lemma applyOption_timeout_settings_kept:
  assumes "slots_ok be st" and "applyOption op (be, st) = Returns (be', st')"
    and "\<forall>c. op \<noteq> WithTimeout c"
  shows "timeoutSender be' = timeoutSender be \<and>
         impl_of st' (timeoutSender be) = impl_of st (timeoutSender be)"
proof (cases op)
  case (WithQueue c)
  show ?thesis
  proof (cases "queueEnabled c")
    case False
    with assms WithQueue show ?thesis
      by (auto simp: slots_ok_def impl_of_alloc split: if_splits prod.splits)
  next
    case True
    from assms(2) [unfolded WithQueue] True obtain qs st1 where
      a: "alloc (QueueSender c (set' be) (signal be) (marshaler be) (unmarshaler be)) st = (qs, st1)"
      and s: "setOnTemporaryFailure (Some qs) (be\<lparr>queueSender := qs\<rparr>, st1) = (be', st')"
      by (rule WithQueue_enabled_Returns)
    from a assms have "impl_of st1 (timeoutSender be) = impl_of st (timeoutSender be)"
      by (auto simp: impl_of_alloc slots_ok_def)
    moreover from assms have "timeoutSender be \<noteq> retrySender be" by (simp add: slots_ok_def)
    ultimately show ?thesis
      using impl_of_setOnTemporaryFailure [OF s, of "timeoutSender be"]
        slots_of_setOnTemporaryFailure [OF s]
      by simp
  qed
qed (use assms in \<open>auto simp: slots_ok_def impl_of_alloc split: if_splits prod.splits\<close>)

lemma applyOptions_timeout_settings_kept:
  assumes "slots_ok be st" and "applyOptions ops (be, st) = Returns (be', st')"
    and "\<forall>op \<in> set ops. \<forall>c. op \<noteq> WithTimeout c"
  shows "timeoutSender be' = timeoutSender be \<and>
         impl_of st' (timeoutSender be) = impl_of st (timeoutSender be)"
  using assms
proof (induction ops arbitrary: be st)
  case Nil
  then show ?case by simp
next
  case (Cons op ops)
  from Cons.prems obtain be1 st1 where
    1: "applyOption op (be, st) = Returns (be1, st1)" and
    2: "applyOptions ops (be1, st1) = Returns (be', st')"
    by (auto split: outcome.splits)
  have ok1: "slots_ok be1 st1" using applyOption_slots_ok [OF Cons.prems(1) 1] .
  from Cons.prems(3) have n: "\<forall>c. op \<noteq> WithTimeout c"
    and ns: "\<forall>op \<in> set ops. \<forall>c. op \<noteq> WithTimeout c" by simp_all
  from applyOption_timeout_settings_kept [OF Cons.prems(1) 1 n] Cons.IH [OF ok1 2 ns]
  show ?case by simp
qed

lemma constructed_default_timeout:
  assumes "newBaseExporter no cs sig re m u osf ops st0 = Returns (Inr (be, st))"
    and "\<forall>op \<in> set ops. \<forall>c. op \<noteq> WithTimeout c"
  shows "impl_of st (timeoutSender be) = Some (TimeoutSender NewDefaultTimeoutSettings)"
proof -
  from assms(1) obtain r be0 st4 st5 where
    lit: "baseExporter_literal r cs sig re m u osf st0 = (be0, st4)"
    and ops: "applyOptions ops (be0, st4) = Returns (be, st5)"
    and st: "st = connectSenders be st5"
    by (rule newBaseExporter_Returns)
  note l = literal_facts [OF lit]
  from applyOptions_timeout_settings_kept [OF l(1) ops assms(2)] l(5)
  show ?thesis by (simp add: st)
qed

lemma next_of_setOnTemporaryFailure:
  "next_of (snd (setOnTemporaryFailure h (be, st))) b = next_of st b"
  by (auto simp: setOnTemporaryFailure_def next_of_def split: option.splits sender_impl.splits)

lemma next_of_set_timeout_cfg: "next_of (set_timeout_cfg a c st) b = next_of st b"
  by (auto simp: set_timeout_cfg_def next_of_def split: option.splits sender_impl.splits)

lemma setNextSender_idem: "next_of st a = Some n \<Longrightarrow> setNextSender a n st = st"
proof -
  assume n: "next_of st a = Some n"
  then obtain s where s: "cells st a = Some s" and ns: "nextSender s = Some n"
    by (auto simp: next_of_def split: option.splits)
  have "s\<lparr>nextSender := Some n\<rparr> = s" using ns by simp
  then have "(cells st)(a \<mapsto> s\<lparr>nextSender := Some n\<rparr>) = cells st"
    using s by (simp add: map_upd_triv)
  then show ?thesis using s by (simp add: setNextSender_def)
qed

text \<open>
  C1 (as amended). For every exporter that \<open>newBaseExporter\<close> returns, in the store it
  returns: the queue sender's \<open>nextSender\<close> is the observability sender, whose \<open>nextSender\<close>
  is the retry sender, whose \<open>nextSender\<close> is the timeout sender, and the four are different
  objects; the queue slot and the retry slot are the pass-through \<open>baseRequestSender\<close> unless
  an option replaced them; the observability slot holds what the factory built and the
  timeout slot holds a timeout sender, with the default settings unless \<open>WithTimeout\<close> was
  given; \<open>send\<close> is the \<open>send\<close> of the queue slot, and with a
  pass-through head it is the \<open>send\<close> of the observability sender. The links stay as
  constructed: \<open>send\<close>, \<open>Start\<close> and \<open>Shutdown\<close> read the store and return none, linking
  again changes nothing, and the other writers of sender fields (\<open>setOnTemporaryFailure\<close>
  and the timeout settings) leave every \<open>nextSender\<close> as it is.
\<close>
theorem chain_linked_in_fixed_order:
  assumes "newBaseExporter no cs sig re m u osf ops st0 = Returns (Inr (be, st))"
  shows "next_of st (queueSender be) = Some (obsrepSender be) \<and>
         next_of st (obsrepSender be) = Some (retrySender be) \<and>
         next_of st (retrySender be) = Some (timeoutSender be) \<and>
         distinct [queueSender be, obsrepSender be, retrySender be, timeoutSender be] \<and>
         (\<forall>sl \<in> {QueueSlot, RetrySlot}.
            (\<forall>op \<in> set ops. \<not> replaces op sl) \<longrightarrow> pass_through st (slot_addr be sl)) \<and>
         (\<exists>r. no = Inr r \<and> impl_of st (obsrepSender be) = Some (osf r)) \<and>
         (\<exists>c. impl_of st (timeoutSender be) = Some (TimeoutSender c)) \<and>
         ((\<forall>op \<in> set ops. \<forall>c. op \<noteq> WithTimeout c) \<longrightarrow>
            impl_of st (timeoutSender be) = Some (TimeoutSender NewDefaultTimeoutSettings)) \<and>
         send X fuel st be req w = sender_send X fuel st (Some (queueSender be)) req w \<and>
         (pass_through st (queueSender be) \<longrightarrow>
            send X (Suc fuel) st be req w = sender_send X fuel st (Some (obsrepSender be)) req w) \<and>
         connectSenders be st = st \<and>
         (\<forall>h b. next_of (snd (setOnTemporaryFailure h (be, st))) b = next_of st b) \<and>
         (\<forall>a c b. next_of (set_timeout_cfg a c st) b = next_of st b)"
proof -
  note f = constructed_facts [OF assms]
  have "pass_through st (slot_addr be sl)"
    if "sl \<in> {QueueSlot, RetrySlot}" and "\<forall>op \<in> set ops. \<not> replaces op sl" for sl
    using that f(7,8) by (auto simp: replaces_queue replaces_retry)
  moreover have "send X (Suc fuel) st be req w = sender_send X fuel st (Some (obsrepSender be)) req w"
    if "pass_through st (queueSender be)"
    using sender_send_pass_through [OF that] f(2) by (simp add: send_def)
  moreover have "distinct [queueSender be, obsrepSender be, retrySender be, timeoutSender be]"
    using f(1) by (simp add: slots_ok_def)
  moreover have "connectSenders be st = st"
    using f(2-4) by (simp add: connectSenders_def setNextSender_idem)
  moreover have "impl_of st (timeoutSender be) = Some (TimeoutSender NewDefaultTimeoutSettings)"
    if "\<forall>op \<in> set ops. \<forall>c. op \<noteq> WithTimeout c"
    using constructed_default_timeout [OF assms that] .
  ultimately show ?thesis
    using f(2-6) by (simp add: send_def next_of_setOnTemporaryFailure next_of_set_timeout_cfg)
qed

lemmas construct_defs =
  newBaseExporter_def baseExporter_literal_def newQueueSender_def alloc_def connectSenders_def setNextSender_def
  empty_store_def set_timeout_cfg_def setOnTemporaryFailure_def

text \<open>
  C1 as stated fails for the slots no option can replace: with no option at all, the
  timeout slot holds a timeout sender with the default five seconds, not a pass-through.
\<close>
theorem default_timeout_slot_not_pass_through:
  "(case newBaseExporter (Inr \<lparr>ExporterID = ''otlp''\<rparr>) \<lparr>ID = ''otlp'', Logger = 0\<rparr>
           DataTypeTraces False 0 0 ObsrepSender ([] :: unit Option' list) empty_store of
      Returns (Inr (be, st)) \<Rightarrow>
        \<not> replaces (WithTimeout NewDefaultTimeoutSettings :: unit Option') TimeoutSlot \<and>
        impl_of st (slot_addr be TimeoutSlot) = Some (TimeoutSender \<lparr>Timeout = 5000000000\<rparr>) \<and>
        \<not> pass_through st (slot_addr be TimeoutSlot)
    | _ \<Rightarrow> False)"
  by (simp add: construct_defs impl_of_def pass_through_def NewDefaultTimeoutSettings_def)

text \<open>
  A run of C1: retry enabled, queue left alone. The queue slot stays at address 0 as a
  pass-through, the retry sender is the new object 4, and a request of 7 items goes
  through the four stages to the transport.
\<close>
theorem chain_linked_in_fixed_order_witness:
  "\<exists>be st.
     newBaseExporter (Inr \<lparr>ExporterID = ''otlp''\<rparr>) \<lparr>ID = ''otlp'', Logger = 0\<rparr>
        DataTypeTraces False 0 0 ObsrepSender
        [WithRetry \<lparr>retryEnabled = True, InitialInterval = 5, MaxInterval = 30, MaxElapsedTime = 300\<rparr>
           :: unit Option'] empty_store = Returns (Inr (be, st)) \<and>
     queueSender be = 0 \<and> obsrepSender be = 1 \<and> retrySender be = 4 \<and> timeoutSender be = 3 \<and>
     next_of st 0 = Some 1 \<and> next_of st 1 = Some 4 \<and> next_of st 4 = Some 3 \<and>
     pass_through st 0 \<and>
     send sample_externals 5 st be \<lparr>Context = ''ctx'', Count = 7\<rparr> empty_world = Returns (None, empty_world)"
proof -
  obtain be st where eq:
    "newBaseExporter (Inr \<lparr>ExporterID = ''otlp''\<rparr>) \<lparr>ID = ''otlp'', Logger = 0\<rparr>
        DataTypeTraces False 0 0 ObsrepSender
        [WithRetry \<lparr>retryEnabled = True, InitialInterval = 5, MaxInterval = 30, MaxElapsedTime = 300\<rparr>
           :: unit Option'] empty_store = Returns (Inr (be, st))"
    and a: "queueSender be = 0" "obsrepSender be = 1" "retrySender be = 4" "timeoutSender be = 3"
    and t: "cells st 3 = Some \<lparr>impl = TimeoutSender NewDefaultTimeoutSettings, nextSender = None\<rparr>"
    and r: "cells st 4 = Some \<lparr>impl = RetrySender \<lparr>retryEnabled = True, InitialInterval = 5, MaxInterval = 30, MaxElapsedTime = 300\<rparr> \<lparr>ID = ''otlp'', Logger = 0\<rparr> None, nextSender = Some 3\<rparr>"
    and ob: "cells st 1 = Some \<lparr>impl = ObsrepSender \<lparr>ExporterID = ''otlp''\<rparr>, nextSender = Some 4\<rparr>"
    by (simp add: construct_defs)
  have run: "sender_send sample_externals 4 st (Some 1) \<lparr>Context = ''ctx'', Count = 7\<rparr> empty_world =
           Returns (None, empty_world)"
    using t r ob by (simp add: eval_nat_numeral sample_externals_def)
  show ?thesis
    using chain_linked_in_fixed_order
            [OF eq, of sample_externals 4 "\<lparr>Context = ''ctx'', Count = 7\<rparr>" empty_world] eq a run
    by (intro exI [of _ be] exI [of _ st]) (simp add: eval_nat_numeral)
qed




lemma calls_call_func: "call_func f w = (e, w') \<Longrightarrow> calls w' = calls w \<and> logged w' = logged w"
  by (auto simp: call_func_def run_lifecycle_def split: option.splits prod.splits)

lemma calls_run_lifecycle:
  "run_lifecycle f w = (e, w') \<Longrightarrow> calls w' = calls w \<and> logged w' = logged w"
  by (auto simp: run_lifecycle_def split: prod.splits)

lemma sender_Start_returns:
  assumes "a \<in> dom (cells st)"
  shows "\<exists>e w'. sender_Start X st a w = Returns (e, w') \<and>
                 calls w' = calls w @ [StartCalled (Sender a)]"
proof -
  from assms obtain s where s: "cells st a = Some s" by auto
  obtain e1 w1 where 1: "call_func None (record_call (StartCalled (Sender a)) w) = (e1, w1)"
    by (cases "call_func None (record_call (StartCalled (Sender a)) w)") auto
  obtain e2 w2 where 2:
    "run_lifecycle (senderStart X (impl s)) (record_call (StartCalled (Sender a)) w) = (e2, w2)"
    by (cases "run_lifecycle (senderStart X (impl s)) (record_call (StartCalled (Sender a)) w)") auto
  show ?thesis
    using calls_call_func [OF 1] calls_run_lifecycle [OF 2] 1 2
    by (cases "impl s") (simp_all add: sender_Start_def s record_call_def)
qed

lemma sender_Shutdown_returns:
  assumes "a \<in> dom (cells st)"
  shows "\<exists>e w'. sender_Shutdown X st a w = Returns (e, w') \<and>
                 calls w' = calls w @ [ShutdownCalled (Sender a)]"
proof -
  from assms obtain s where s: "cells st a = Some s" by auto
  obtain e1 w1 where 1: "call_func None (record_call (ShutdownCalled (Sender a)) w) = (e1, w1)"
    by (cases "call_func None (record_call (ShutdownCalled (Sender a)) w)") auto
  obtain e2 w2 where 2:
    "run_lifecycle (senderShutdown X (impl s)) (record_call (ShutdownCalled (Sender a)) w) = (e2, w2)"
    by (cases "run_lifecycle (senderShutdown X (impl s)) (record_call (ShutdownCalled (Sender a)) w)")
       auto
  show ?thesis
    using calls_call_func [OF 1] calls_run_lifecycle [OF 2] 1 2
    by (cases "impl s") (simp_all add: sender_Shutdown_def s record_call_def)
qed

lemma Combine_None_iff: "Combine [e1, e2, e3] = None \<longleftrightarrow> e1 = None \<and> e2 = None \<and> e3 = None"
  by (cases e1; cases e2; cases e3) (simp_all add: Combine_def)

lemma combined_errors_Combine:
  "combined_errors (Combine errs) = concat (map errors_of (non_nil errs))"
proof (cases "non_nil errs")
  case Nil
  then show ?thesis by (simp add: Combine_def)
next
  case (Cons e es)
  then show ?thesis by (cases es) (simp_all add: Combine_def)
qed

text \<open>
  C3. \<open>Shutdown\<close> shuts down the retry sender, then the queue sender, then calls the user's
  shutdown hook, whatever each of them returns; the calls appear in that order. The result
  is \<open>multierr.Combine\<close> of the three results: nil exactly when all three are nil, and
  otherwise holding every error of the three, in that order.
\<close>
theorem Shutdown_order_and_combined_errors:
  assumes "newBaseExporter no cs sig re m u osf ops st0 = Returns (Inr (be, st))"
  shows "\<exists>e1 w1 e2 w2 e3 w3.
     sender_Shutdown X st (retrySender be) w = Returns (e1, w1) \<and>
     sender_Shutdown X st (queueSender be) w1 = Returns (e2, w2) \<and>
     call_func (ShutdownFunc be) (record_call (ShutdownCalled Transport) w2) = (e3, w3) \<and>
     Shutdown X st be w = Returns (Combine [e1, e2, e3], w3) \<and>
     calls w3 = calls w @ [ShutdownCalled (Sender (retrySender be)),
                           ShutdownCalled (Sender (queueSender be)),
                           ShutdownCalled Transport] \<and>
     (Combine [e1, e2, e3] = None \<longleftrightarrow> e1 = None \<and> e2 = None \<and> e3 = None) \<and>
     combined_errors (Combine [e1, e2, e3]) = concat (map errors_of (non_nil [e1, e2, e3]))"
proof -
  have d: "retrySender be \<in> dom (cells st)" "queueSender be \<in> dom (cells st)"
    using constructed_facts(1) [OF assms] by (simp_all add: slots_ok_def)
  from sender_Shutdown_returns [OF d(1), of X w] obtain e1 w1
    where 1: "sender_Shutdown X st (retrySender be) w = Returns (e1, w1)"
      and k1: "calls w1 = calls w @ [ShutdownCalled (Sender (retrySender be))]" by blast
  from sender_Shutdown_returns [OF d(2), of X w1] obtain e2 w2
    where 2: "sender_Shutdown X st (queueSender be) w1 = Returns (e2, w2)"
      and k2: "calls w2 = calls w1 @ [ShutdownCalled (Sender (queueSender be))]" by blast
  obtain e3 w3
    where 3: "call_func (ShutdownFunc be) (record_call (ShutdownCalled Transport) w2) = (e3, w3)"
    by (cases "call_func (ShutdownFunc be) (record_call (ShutdownCalled Transport) w2)") auto
  have k3: "calls w3 = calls w2 @ [ShutdownCalled Transport]"
    using calls_call_func [OF 3] by (simp add: record_call_def)
  have "Shutdown X st be w = Returns (Combine [e1, e2, e3], w3)"
    using 1 2 3 by (simp add: Shutdown_def)
  then show ?thesis
    using 1 2 3 k1 k2 k3 Combine_None_iff [of e1 e2 e3] combined_errors_Combine [of "[e1, e2, e3]"]
    by (intro exI [of _ e1] exI [of _ w1] exI [of _ e2] exI [of _ w2] exI [of _ e3] exI [of _ w3])
       simp
qed

lemma applyOption_set': "applyOption op (be, st) = Returns (be', st') \<Longrightarrow> set' be' = set' be"
  by (cases op)
     (auto simp: setOnTemporaryFailure_def newQueueSender_def split: if_splits prod.splits)

lemma applyOptions_set':
  "applyOptions ops (be, st) = Returns (be', st') \<Longrightarrow> set' be' = set' be"
proof (induction ops arbitrary: be st)
  case Nil
  then show ?case by simp
next
  case (Cons op ops)
  then show ?case by (auto split: outcome.splits dest: applyOption_set')
qed

lemma literal_set': "baseExporter_literal r cs sig re m u osf st = (be, st') \<Longrightarrow> set' be = cs"
  by (auto simp: baseExporter_literal_def alloc_def)

lemma sender_send_error_logging:
  assumes "impl_of hp a = Some (ErrorLoggingRequestSender l msg)"
  shows "sender_send X (Suc n) hp (Some a) req w =
        (case sender_send X n hp (next_of hp a) req w of
           Returns (err, w') \<Rightarrow>
             Returns (err, w'\<lparr>logged := logged w' @
                (case err of None \<Rightarrow> []
                 | Some e \<Rightarrow> [\<lparr>logger = l, message = msg, dropped_items = Count req,
                               logged_error = e\<rparr>])\<rparr>)
         | Panics p \<Rightarrow> Panics p
         | OutOfFuel \<Rightarrow> OutOfFuel)"
proof -
  from assms obtain s where s: "cells hp a = Some s" "impl s = ErrorLoggingRequestSender l msg"
    by (auto simp: impl_of_def)
  then have n: "next_of hp a = nextSender s" by (simp add: next_of_def)
  show ?thesis
  proof (cases "sender_send X n hp (nextSender s) req w")
    case (Returns p)
    obtain err w' where "p = (err, w')" by (cases p)
    with Returns s n show ?thesis by (cases err) (simp_all add: logger_Error_def)
  qed (use s n in simp_all)
qed

lemma WithRetry_disabled:
  assumes "\<not> retryEnabled rc"
  shows "\<exists>st'. applyOption (WithRetry rc) (be, st) = Returns (be\<lparr>retrySender := fresh st\<rparr>, st') \<and>
           cells st' (fresh st) =
             Some \<lparr>impl = ErrorLoggingRequestSender (Logger (set' be)) retry_disabled_message,
                   nextSender = None\<rparr>"
  using assms by (simp add: alloc_def)

lemma WithQueue_disabled:
  assumes "\<not> queueEnabled qc" and "\<not> requestExporter be"
  shows "\<exists>st'. applyOption (WithQueue qc) (be, st) = Returns (be\<lparr>queueSender := fresh st\<rparr>, st') \<and>
           cells st' (fresh st) =
             Some \<lparr>impl = ErrorLoggingRequestSender (Logger (set' be)) queue_disabled_message,
                   nextSender = None\<rparr>"
  using assms by (simp add: alloc_def)

lemma applyOptions_split:
  assumes "applyOptions (pre @ op # post) bs = Returns r"
  obtains be1 st1 be2 st2 where "applyOptions pre bs = Returns (be1, st1)"
    and "applyOption op (be1, st1) = Returns (be2, st2)"
    and "applyOptions post (be2, st2) = Returns r"
proof (cases "applyOptions pre bs")
  case (Returns p)
  obtain be1 st1 where p: "p = (be1, st1)" by (cases p)
  show ?thesis
  proof (cases "applyOption op (be1, st1)")
    case (Returns q)
    obtain be2 st2 where q: "q = (be2, st2)" by (cases q)
    from assms \<open>applyOptions pre bs = Returns p\<close> Returns p q
    have "applyOptions post (be2, st2) = Returns r"
      by (simp add: applyOptions_append)
    with that \<open>applyOptions pre bs = Returns p\<close> Returns p q show ?thesis by simp
  qed (use assms \<open>applyOptions pre bs = Returns p\<close> p in \<open>simp_all add: applyOptions_append\<close>)
qed (use assms in \<open>simp_all add: applyOptions_append\<close>)

lemma constructed_queue_disabled:
  assumes new: "newBaseExporter no cs sig re m u osf (pre @ WithQueue qc # post) st0 = Returns (Inr (be, st))"
    and dis: "\<not> queueEnabled qc" and post: "\<forall>op \<in> set post. \<forall>c. op \<noteq> WithQueue c"
  shows "impl_of st (queueSender be) = Some (ErrorLoggingRequestSender (Logger cs) queue_disabled_message)"
proof -
  from new obtain r be0 st4 st5 where no: "no = Inr r"
    and lit: "baseExporter_literal r cs sig re m u osf st0 = (be0, st4)"
    and ops: "applyOptions (pre @ WithQueue qc # post) (be0, st4) = Returns (be, st5)"
    and st: "st = connectSenders be st5"
    by (rule newBaseExporter_Returns)
  from ops obtain be1 st1 be2 st2 where
    1: "applyOptions pre (be0, st4) = Returns (be1, st1)" and
    2: "applyOption (WithQueue qc) (be1, st1) = Returns (be2, st2)" and
    3: "applyOptions post (be2, st2) = Returns (be, st5)"
    by (rule applyOptions_split)
  have ok1: "slots_ok be1 st1" using applyOptions_slots_ok [OF literal_facts(1) [OF lit] 1] .
  have ok2: "slots_ok be2 st2" using applyOption_slots_ok [OF ok1 2] .
  have "set' be1 = cs" using applyOptions_set' [OF 1] literal_set' [OF lit] by simp
  with 2 dis have "impl_of st2 (queueSender be2) =
      Some (ErrorLoggingRequestSender (Logger cs) queue_disabled_message)"
    by (auto simp: alloc_def impl_of_def split: if_splits)
  with applyOptions_slots [OF ok2 3] post show ?thesis by (simp add: st)
qed

lemma constructed_retry_disabled:
  assumes new: "newBaseExporter no cs sig re m u osf (pre @ WithRetry rc # post) st0 = Returns (Inr (be, st))"
    and dis: "\<not> retryEnabled rc" and post: "\<forall>op \<in> set post. \<forall>c. op \<noteq> WithRetry c"
  shows "impl_of st (retrySender be) = Some (ErrorLoggingRequestSender (Logger cs) retry_disabled_message)"
proof -
  from new obtain r be0 st4 st5 where no: "no = Inr r"
    and lit: "baseExporter_literal r cs sig re m u osf st0 = (be0, st4)"
    and ops: "applyOptions (pre @ WithRetry rc # post) (be0, st4) = Returns (be, st5)"
    and st: "st = connectSenders be st5"
    by (rule newBaseExporter_Returns)
  from ops obtain be1 st1 be2 st2 where
    1: "applyOptions pre (be0, st4) = Returns (be1, st1)" and
    2: "applyOption (WithRetry rc) (be1, st1) = Returns (be2, st2)" and
    3: "applyOptions post (be2, st2) = Returns (be, st5)"
    by (rule applyOptions_split)
  have ok1: "slots_ok be1 st1" using applyOptions_slots_ok [OF literal_facts(1) [OF lit] 1] .
  have ok2: "slots_ok be2 st2" using applyOption_slots_ok [OF ok1 2] .
  have "set' be1 = cs" using applyOptions_set' [OF 1] literal_set' [OF lit] by simp
  with 2 dis have "impl_of st2 (retrySender be2) =
      Some (ErrorLoggingRequestSender (Logger cs) retry_disabled_message)"
    by (auto simp: alloc_def impl_of_def split: if_splits)
  with applyOptions_slots [OF ok2 3] post show ?thesis by (simp add: st)
qed

text \<open>
  C5 (as amended). \<open>WithRetry\<close> with \<open>Enabled = false\<close> puts a fresh error-logging sender in
  the retry slot, and so does \<open>WithQueue\<close> with \<open>Enabled = false\<close> in the queue slot of an
  exporter that is not a request exporter. An error-logging sender hands the request it
  was given to its next sender and returns that sender's error as it is, after logging it
  with the request's item count when it is not nil; a panic of the next sender passes
  through. After construction the disabled stage is still that sender, so with the queue
  disabled \<open>send\<close> is the downstream chain run in the caller, its error returned.
\<close>
theorem disabled_stage_is_error_logging_pass_through:
  fixes be :: "'s baseExporter" and X :: "'s externals" and pre post pre' post' :: "'s Option' list"
  shows
  "(\<not> retryEnabled rc \<longrightarrow>
      (\<exists>st'. applyOption (WithRetry rc) (be, st) = Returns (be\<lparr>retrySender := fresh st\<rparr>, st') \<and>
             cells st' (fresh st) =
               Some \<lparr>impl = ErrorLoggingRequestSender (Logger (set' be)) retry_disabled_message,
                     nextSender = None\<rparr>)) \<and>
   (\<not> queueEnabled qc \<and> \<not> requestExporter be \<longrightarrow>
      (\<exists>st'. applyOption (WithQueue qc) (be, st) = Returns (be\<lparr>queueSender := fresh st\<rparr>, st') \<and>
             cells st' (fresh st) =
               Some \<lparr>impl = ErrorLoggingRequestSender (Logger (set' be)) queue_disabled_message,
                     nextSender = None\<rparr>)) \<and>
   (impl_of hp a = Some (ErrorLoggingRequestSender l msg) \<longrightarrow>
      sender_send X (Suc n) hp (Some a) req w =
        (case sender_send X n hp (next_of hp a) req w of
           Returns (err, w') \<Rightarrow>
             Returns (err, w'\<lparr>logged := logged w' @
                (case err of None \<Rightarrow> []
                 | Some e \<Rightarrow> [\<lparr>logger = l, message = msg, dropped_items = Count req,
                               logged_error = e\<rparr>])\<rparr>)
         | Panics p \<Rightarrow> Panics p
         | OutOfFuel \<Rightarrow> OutOfFuel)) \<and>
   (newBaseExporter no cs sig re m u osf (pre @ WithRetry rc # post) st0 = Returns (Inr (be1, st1)) \<and>
    \<not> retryEnabled rc \<and> (\<forall>op \<in> set post. \<forall>c. op \<noteq> WithRetry c) \<longrightarrow>
      impl_of st1 (retrySender be1) =
        Some (ErrorLoggingRequestSender (Logger cs) retry_disabled_message) \<and>
      next_of st1 (retrySender be1) = Some (timeoutSender be1)) \<and>
   (newBaseExporter no cs sig re m u osf (pre' @ WithQueue qc # post') st0 = Returns (Inr (be2, st2)) \<and>
    \<not> queueEnabled qc \<and> (\<forall>op \<in> set post'. \<forall>c. op \<noteq> WithQueue c) \<longrightarrow>
      impl_of st2 (queueSender be2) =
        Some (ErrorLoggingRequestSender (Logger cs) queue_disabled_message) \<and>
      send X (Suc n) st2 be2 req w =
        (case sender_send X n st2 (Some (obsrepSender be2)) req w of
           Returns (err, w') \<Rightarrow>
             Returns (err, w'\<lparr>logged := logged w' @
                (case err of None \<Rightarrow> []
                 | Some e \<Rightarrow> [\<lparr>logger = Logger cs, message = queue_disabled_message,
                               dropped_items = Count req, logged_error = e\<rparr>])\<rparr>)
         | Panics p \<Rightarrow> Panics p
         | OutOfFuel \<Rightarrow> OutOfFuel))"
proof (intro conjI impI)
  show "\<exists>st'. applyOption (WithRetry rc) (be, st) = Returns (be\<lparr>retrySender := fresh st\<rparr>, st') \<and>
             cells st' (fresh st) =
               Some \<lparr>impl = ErrorLoggingRequestSender (Logger (set' be)) retry_disabled_message,
                     nextSender = None\<rparr>"
    if "\<not> retryEnabled rc"
    using WithRetry_disabled [OF that] .
  show "\<exists>st'. applyOption (WithQueue qc) (be, st) = Returns (be\<lparr>queueSender := fresh st\<rparr>, st') \<and>
             cells st' (fresh st) =
               Some \<lparr>impl = ErrorLoggingRequestSender (Logger (set' be)) queue_disabled_message,
                     nextSender = None\<rparr>"
    if "\<not> queueEnabled qc \<and> \<not> requestExporter be"
    using WithQueue_disabled [of qc be st] that by simp
  show "sender_send X (Suc n) hp (Some a) req w =
        (case sender_send X n hp (next_of hp a) req w of
           Returns (err, w') \<Rightarrow>
             Returns (err, w'\<lparr>logged := logged w' @
                (case err of None \<Rightarrow> []
                 | Some e \<Rightarrow> [\<lparr>logger = l, message = msg, dropped_items = Count req,
                               logged_error = e\<rparr>])\<rparr>)
         | Panics p \<Rightarrow> Panics p
         | OutOfFuel \<Rightarrow> OutOfFuel)"
    if "impl_of hp a = Some (ErrorLoggingRequestSender l msg)"
    using sender_send_error_logging [OF that] .
next
  assume h: "newBaseExporter no cs sig re m u osf (pre @ WithRetry rc # post) st0 = Returns (Inr (be1, st1)) \<and>
    \<not> retryEnabled rc \<and> (\<forall>op \<in> set post. \<forall>c. op \<noteq> WithRetry c)"
  then have new: "newBaseExporter no cs sig re m u osf (pre @ WithRetry rc # post) st0 = Returns (Inr (be1, st1))"
    and dis: "\<not> retryEnabled rc" and post: "\<forall>op \<in> set post. \<forall>c. op \<noteq> WithRetry c"
    by simp_all
  show "impl_of st1 (retrySender be1) =
        Some (ErrorLoggingRequestSender (Logger cs) retry_disabled_message)"
    using constructed_retry_disabled [OF new dis post] .
  show "next_of st1 (retrySender be1) = Some (timeoutSender be1)"
    using constructed_facts(4) [OF new] .
next
  assume h: "newBaseExporter no cs sig re m u osf (pre' @ WithQueue qc # post') st0 = Returns (Inr (be2, st2)) \<and>
    \<not> queueEnabled qc \<and> (\<forall>op \<in> set post'. \<forall>c. op \<noteq> WithQueue c)"
  then have new: "newBaseExporter no cs sig re m u osf (pre' @ WithQueue qc # post') st0 = Returns (Inr (be2, st2))"
    and dis: "\<not> queueEnabled qc" and post: "\<forall>op \<in> set post'. \<forall>c. op \<noteq> WithQueue c"
    by simp_all
  have i: "impl_of st2 (queueSender be2) =
        Some (ErrorLoggingRequestSender (Logger cs) queue_disabled_message)"
    using constructed_queue_disabled [OF new dis post] .
  then show "impl_of st2 (queueSender be2) =
        Some (ErrorLoggingRequestSender (Logger cs) queue_disabled_message)" .
  have "next_of st2 (queueSender be2) = Some (obsrepSender be2)"
    using constructed_facts(2) [OF new] .
  with sender_send_error_logging [OF i, of X n req w]
  show "send X (Suc n) st2 be2 req w =
        (case sender_send X n st2 (Some (obsrepSender be2)) req w of
           Returns (err, w') \<Rightarrow>
             Returns (err, w'\<lparr>logged := logged w' @
                (case err of None \<Rightarrow> []
                 | Some e \<Rightarrow> [\<lparr>logger = Logger cs, message = queue_disabled_message,
                               dropped_items = Count req, logged_error = e\<rparr>])\<rparr>)
         | Panics p \<Rightarrow> Panics p
         | OutOfFuel \<Rightarrow> OutOfFuel)"
    by (simp add: send_def)
qed

text \<open>
  C5 as stated fails on a request exporter: there \<open>WithQueue\<close> with \<open>Enabled = false\<close>
  panics and no error-logging sender is installed.
\<close>
theorem WithQueue_disabled_panics_on_request_exporter:
  "newBaseExporter (Inr \<lparr>ExporterID = ''otlp''\<rparr>) \<lparr>ID = ''otlp'', Logger = 0\<rparr> DataTypeTraces True 0 0
     ObsrepSender [WithQueue \<lparr>queueEnabled = False, NumConsumers = 10, QueueSize = 1000\<rparr> :: unit Option']
     empty_store = Panics ''queueing is not available for the new request exporters yet''"
  by (simp add: construct_defs)

text \<open>
  A run of C5: retry and queue both disabled, and a request the transport rejects. The
  error comes back unchanged and is logged twice, by the retry slot and then by the queue
  slot.
\<close>
theorem disabled_stage_is_error_logging_pass_through_witness:
  "\<exists>be st.
     newBaseExporter (Inr \<lparr>ExporterID = ''otlp''\<rparr>) \<lparr>ID = ''otlp'', Logger = 0\<rparr> DataTypeTraces False 0 0
       ObsrepSender
       [WithRetry \<lparr>retryEnabled = False, InitialInterval = 5, MaxInterval = 30, MaxElapsedTime = 300\<rparr>,
        WithQueue \<lparr>queueEnabled = False, NumConsumers = 10, QueueSize = 1000\<rparr> :: unit Option']
       empty_store = Returns (Inr (be, st)) \<and>
     impl_of st (retrySender be) = Some (ErrorLoggingRequestSender 0 retry_disabled_message) \<and>
     impl_of st (queueSender be) = Some (ErrorLoggingRequestSender 0 queue_disabled_message) \<and>
     send sample_externals 5 st be \<lparr>Context = ''ctx'', Count = 101\<rparr> empty_world =
       Returns (Some (Error ''too large''),
         \<lparr>calls = [],
          logged = [\<lparr>logger = 0, message = retry_disabled_message, dropped_items = 101,
                     logged_error = Error ''too large''\<rparr>,
                    \<lparr>logger = 0, message = queue_disabled_message, dropped_items = 101,
                     logged_error = Error ''too large''\<rparr>],
          ext = ()\<rparr>) \<and>
     (\<exists>st'. applyOption (WithRetry \<lparr>retryEnabled = False, InitialInterval = 5, MaxInterval = 30,
                                    MaxElapsedTime = 300\<rparr>) (be, st) =
              Returns (be\<lparr>retrySender := fresh st\<rparr>, st')) \<and>
     (\<exists>st'. applyOption (WithQueue \<lparr>queueEnabled = False, NumConsumers = 10, QueueSize = 1000\<rparr>) (be, st) =
              Returns (be\<lparr>queueSender := fresh st\<rparr>, st'))"
proof -
  let ?rc = "\<lparr>retryEnabled = False, InitialInterval = 5, MaxInterval = 30, MaxElapsedTime = 300\<rparr>"
  let ?qc = "\<lparr>queueEnabled = False, NumConsumers = 10, QueueSize = 1000\<rparr>"
  let ?req = "\<lparr>Context = ''ctx'', Count = 101\<rparr>"
  let ?cs = "\<lparr>ID = ''otlp'', Logger = 0\<rparr>"
  obtain be :: "unit baseExporter" and st where eq:
    "newBaseExporter (Inr \<lparr>ExporterID = ''otlp''\<rparr>) ?cs DataTypeTraces False 0 0
       ObsrepSender [WithRetry ?rc, WithQueue ?qc] empty_store = Returns (Inr (be, st))"
    and a: "obsrepSender be = 1" "retrySender be = 4" "\<not> requestExporter be"
    and t: "cells st 3 = Some \<lparr>impl = TimeoutSender NewDefaultTimeoutSettings, nextSender = None\<rparr>"
    and r: "cells st 4 = Some \<lparr>impl = ErrorLoggingRequestSender 0 retry_disabled_message,
                                 nextSender = Some 3\<rparr>"
    and ob: "cells st 1 = Some \<lparr>impl = ObsrepSender \<lparr>ExporterID = ''otlp''\<rparr>, nextSender = Some 4\<rparr>"
    by (simp add: construct_defs)
  have run: "sender_send sample_externals 4 st (Some 1) ?req empty_world =
      Returns (Some (Error ''too large''),
         \<lparr>calls = [],
          logged = [\<lparr>logger = 0, message = retry_disabled_message, dropped_items = 101,
                     logged_error = Error ''too large''\<rparr>],
          ext = ()\<rparr>)"
    using t r ob
    by (simp add: eval_nat_numeral sample_externals_def logger_Error_def empty_world_def)
  note inst = disabled_stage_is_error_logging_pass_through
    [of "?rc" be st "?qc" st 4 0 retry_disabled_message sample_externals 4 "?req" empty_world
        "Inr \<lparr>ExporterID = ''otlp''\<rparr>" "?cs" DataTypeTraces False 0 0 ObsrepSender
        "[]" "[WithQueue ?qc]" empty_store be st "[WithRetry ?rc]" "[]" be st]
  have d1: "\<not> retryEnabled ?rc" and d2: "\<not> queueEnabled ?qc \<and> \<not> requestExporter be"
    using a(3) by simp_all
  have h4: "newBaseExporter (Inr \<lparr>ExporterID = ''otlp''\<rparr>) ?cs DataTypeTraces False 0 0
       ObsrepSender ([] @ WithRetry ?rc # [WithQueue ?qc]) empty_store = Returns (Inr (be, st)) \<and>
       \<not> retryEnabled ?rc \<and> (\<forall>op \<in> set [WithQueue ?qc :: unit Option']. \<forall>c. op \<noteq> WithRetry c)"
    using eq by simp
  have h5: "newBaseExporter (Inr \<lparr>ExporterID = ''otlp''\<rparr>) ?cs DataTypeTraces False 0 0
       ObsrepSender ([WithRetry ?rc] @ WithQueue ?qc # []) empty_store = Returns (Inr (be, st)) \<and>
       \<not> queueEnabled ?qc \<and> (\<forall>op \<in> set ([] :: unit Option' list). \<forall>c. op \<noteq> WithQueue c)"
    using eq by simp
  have i1: "\<exists>st'. applyOption (WithRetry ?rc) (be, st) = Returns (be\<lparr>retrySender := fresh st\<rparr>, st')"
    using inst [THEN conjunct1, THEN mp, OF d1] by blast
  have i2: "\<exists>st'. applyOption (WithQueue ?qc) (be, st) = Returns (be\<lparr>queueSender := fresh st\<rparr>, st')"
    using inst [THEN conjunct2, THEN conjunct1, THEN mp, OF d2] by blast
  have i3: "impl_of st (retrySender be) = Some (ErrorLoggingRequestSender 0 retry_disabled_message)"
    using inst [THEN conjunct2, THEN conjunct2, THEN conjunct2, THEN conjunct1, THEN mp, OF h4]
    by simp
  note c5 = inst [THEN conjunct2, THEN conjunct2, THEN conjunct2, THEN conjunct2, THEN mp, OF h5]
  have i4: "impl_of st (queueSender be) = Some (ErrorLoggingRequestSender 0 queue_disabled_message)"
    using c5 by simp
  have "send sample_externals (Suc 4) st be ?req empty_world =
        (case sender_send sample_externals 4 st (Some (obsrepSender be)) ?req empty_world of
           Returns (err, w') \<Rightarrow>
             Returns (err, w'\<lparr>logged := logged w' @
                (case err of None \<Rightarrow> []
                 | Some e \<Rightarrow> [\<lparr>logger = Logger ?cs, message = queue_disabled_message,
                               dropped_items = Count ?req, logged_error = e\<rparr>])\<rparr>)
         | Panics p \<Rightarrow> Panics p
         | OutOfFuel \<Rightarrow> OutOfFuel)"
    using c5 [THEN conjunct2] .
  moreover have "Suc 4 = (5::nat)" by simp
  ultimately have i5: "send sample_externals 5 st be ?req empty_world =
       Returns (Some (Error ''too large''),
         \<lparr>calls = [],
          logged = [\<lparr>logger = 0, message = retry_disabled_message, dropped_items = 101,
                     logged_error = Error ''too large''\<rparr>,
                    \<lparr>logger = 0, message = queue_disabled_message, dropped_items = 101,
                     logged_error = Error ''too large''\<rparr>],
          ext = ()\<rparr>)"
    using a(1) run by simp
  from eq i1 i2 i3 i4 i5 show ?thesis by blast
qed

text \<open>A run of C3 where all three stages fail: all three errors come back, in order.\<close>
theorem Shutdown_order_and_combined_errors_witness:
  "\<exists>be st.
      newBaseExporter (Inr \<lparr>ExporterID = ''otlp''\<rparr>) \<lparr>ID = ''otlp'', Logger = 0\<rparr> DataTypeTraces False 0 0
        ObsrepSender
        [WithRetry \<lparr>retryEnabled = True, InitialInterval = 5, MaxInterval = 30, MaxElapsedTime = 300\<rparr>,
         WithQueue \<lparr>queueEnabled = True, NumConsumers = 10, QueueSize = 1000\<rparr>,
         WithShutdown (Some (\<lambda>s. (Some (Error ''transport''), s))) :: unit Option']
        empty_store = Returns (Inr (be, st)) \<and>
      Shutdown sample_externals st be empty_world =
        Returns (Some (MultiError [Error ''retry'', Error ''queue'', Error ''transport'']),
                 \<lparr>calls = [ShutdownCalled (Sender 4), ShutdownCalled (Sender 5),
                            ShutdownCalled Transport],
                  logged = [], ext = ()\<rparr>)"
proof -
  let ?cs = "\<lparr>ID = ''otlp'', Logger = 0\<rparr>"
  let ?rc = "\<lparr>retryEnabled = True, InitialInterval = 5, MaxInterval = 30, MaxElapsedTime = 300\<rparr>"
  let ?qc = "\<lparr>queueEnabled = True, NumConsumers = 10, QueueSize = 1000\<rparr>"
  obtain be :: "unit baseExporter" and st where eq:
    "newBaseExporter (Inr \<lparr>ExporterID = ''otlp''\<rparr>) ?cs DataTypeTraces False 0 0
        ObsrepSender [WithRetry ?rc, WithQueue ?qc, WithShutdown (Some (\<lambda>s. (Some (Error ''transport''), s)))]
        empty_store = Returns (Inr (be, st))"
    and f: "ShutdownFunc be = Some (\<lambda>s. (Some (Error ''transport''), s))"
    and a: "retrySender be = 4" "queueSender be = 5"
    and r: "cells st 4 = Some \<lparr>impl = RetrySender ?rc ?cs (Some 5), nextSender = Some 3\<rparr>"
    and q: "cells st 5 = Some \<lparr>impl = QueueSender ?qc ?cs DataTypeTraces 0 0, nextSender = Some 1\<rparr>"
    by (simp add: construct_defs)
  have 1: "sender_Shutdown sample_externals st 4 empty_world =
      Returns (Some (Error ''retry''), \<lparr>calls = [ShutdownCalled (Sender 4)], logged = [], ext = ()\<rparr>)"
    using r by (simp add: sender_Shutdown_def sample_externals_def run_lifecycle_def record_call_def
          empty_world_def)
  have 2: "sender_Shutdown sample_externals st 5
             \<lparr>calls = [ShutdownCalled (Sender 4)], logged = [], ext = ()\<rparr> =
      Returns (Some (Error ''queue''),
        \<lparr>calls = [ShutdownCalled (Sender 4), ShutdownCalled (Sender 5)], logged = [], ext = ()\<rparr>)"
    using q by (simp add: sender_Shutdown_def sample_externals_def run_lifecycle_def record_call_def)
  have 3: "call_func (ShutdownFunc be) (record_call (ShutdownCalled Transport)
             \<lparr>calls = [ShutdownCalled (Sender 4), ShutdownCalled (Sender 5)], logged = [], ext = ()\<rparr>) =
      (Some (Error ''transport''),
        \<lparr>calls = [ShutdownCalled (Sender 4), ShutdownCalled (Sender 5), ShutdownCalled Transport],
         logged = [], ext = ()\<rparr>)"
    by (simp add: f call_func_def run_lifecycle_def record_call_def)
  have "Shutdown sample_externals st be empty_world =
        Returns (Some (MultiError [Error ''retry'', Error ''queue'', Error ''transport'']),
                 \<lparr>calls = [ShutdownCalled (Sender 4), ShutdownCalled (Sender 5),
                            ShutdownCalled Transport],
                  logged = [], ext = ()\<rparr>)"
    using Shutdown_order_and_combined_errors [OF eq, of sample_externals empty_world] 1 2 3 a
    by (auto simp: Combine_def)
  with eq show ?thesis by blast
qed

lemma index_of_Some: "index_of P xs = Some i \<Longrightarrow> i < length xs \<and> P (xs ! i)"
  by (induction xs arbitrary: i) (auto split: if_splits)

lemma index_of_None: "index_of P xs = None \<longleftrightarrow> (\<forall>x \<in> set xs. \<not> P x)"
  by (induction xs) auto

lemma holding_single [simp]: "holding [w] = held w"
  by (simp add: holding_def)

lemma holding_Nil [simp]: "holding [] = []"
  by (simp add: holding_def)

lemma holding_replicate_Idle [simp]: "holding (replicate n Idle) = []"
  by (induction n) (simp_all add: holding_def)

lemma holding_wake [simp]:
  "holding (map (\<lambda>w. if w = Blocked then Exited else w) ws) = holding ws"
  by (induction ws) (simp_all add: holding_def)

lemma short_list: "length ws \<le> Suc 0 \<Longrightarrow> i < length ws \<Longrightarrow> ws = [ws ! i] \<and> i = 0"
  by (cases ws) auto

lemma in_set_update: "x \<in> set (ws[i := w]) \<Longrightarrow> x = w \<or> x \<in> set ws"
  using set_update_subset_insert [of ws i w] by auto

lemma inv_New: "queue_inv C W (NewBoundedMemoryQueue C W)"
  by (simp add: queue_inv_def NewBoundedMemoryQueue_def)

lemma inv_Start: "queue_inv C W q \<Longrightarrow> queue_inv C W (queue_Start q)"
  by (auto simp: queue_inv_def queue_Start_def)

lemma inv_shutdown_begin: "queue_inv C W q \<Longrightarrow> queue_inv C W (shutdown_begin q)"
  by (auto simp: queue_inv_def shutdown_begin_def split: if_splits)

lemma inv_Produce:
  assumes "queue_inv C W q"
  shows "queue_inv C W (snd (Produce r q))"
proof (cases "stopped q")
  case True
  with assms show ?thesis by (simp add: Produce_def)
next
  case False
  show ?thesis
  proof (cases "index_of (\<lambda>w. w = Blocked) (workers q)")
    case None
    then have nb: "Blocked \<notin> set (workers q)" by (auto simp: index_of_None)
    show ?thesis
    proof (cases "length (items q) < capacity q")
      case True
      have "Exited \<notin> set (workers q)" using assms False by (auto simp: queue_inv_def)
      with assms None False True nb show ?thesis
        by (simp add: Produce_def queue_inv_def)
    next
      case F: False
      with assms None False show ?thesis by (simp add: Produce_def)
    qed
  next
    case (Some i)
    from index_of_Some [OF Some] have i: "i < length (workers q)" and b: "workers q ! i = Blocked"
      by simp_all
    then have bl: "Blocked \<in> set (workers q)" by (metis nth_mem)
    with assms have e: "items q = []" by (simp add: queue_inv_def)
    have ne: "Exited \<notin> set (workers q)" using assms False by (auto simp: queue_inv_def)
    have P: "snd (Produce r q) = q\<lparr>workers := (workers q)[i := Holding r],
                      accepted := accepted q @ [r], dequeued := dequeued q @ [r]\<rparr>"
      using False Some by (simp add: Produce_def)
    have one: "dequeued q @ [r] = consumed q @ holding ((workers q)[i := Holding r])"
      if "length (workers q) \<le> 1"
    proof -
      from that i have w: "workers q = [workers q ! i]" and "i = 0"
        using short_list [of "workers q" i] by simp_all
      then have "workers q = [Blocked]" using b by simp
      with assms that \<open>i = 0\<close> show ?thesis by (simp add: queue_inv_def)
    qed
    have notin: "Blocked \<in> set ((workers q)[i := Holding r]) \<Longrightarrow> \<not> stopped q"
      using False by simp
    have notex: "Exited \<notin> set ((workers q)[i := Holding r])"
      using ne in_set_update [of Exited "workers q" i "Holding r"] by auto
    from assms e one notex False show ?thesis
      unfolding P by (auto simp: queue_inv_def)
  qed
qed

lemma inv_work:
  assumes "queue_inv C W q"
  shows "queue_inv C W (work i q)"
proof (cases "i < length (workers q)")
  case False
  with assms show ?thesis by (simp add: work_def)
next
  case i: True
  have one: "workers q = [workers q ! i] \<and> i = 0" if "length (workers q) \<le> 1"
    using short_list [of "workers q" i] that i by simp
  have mem: "workers q ! i \<in> set (workers q)" using i by simp
  have sub: "x \<in> set ((workers q)[i := w]) \<Longrightarrow> x = w \<or> x \<in> set (workers q)" for x w
    by (rule in_set_update)
  show ?thesis
  proof (cases "workers q ! i")
    case Idle
    show ?thesis
    proof (cases "items q")
      case Nil
      show ?thesis
      proof (cases "stopped q")
        case True
        then have w: "work i q = q\<lparr>workers := (workers q)[i := Exited]\<rparr>"
          using i Idle Nil by (simp add: work_def)
        have "Blocked \<notin> set (workers q)" using assms True by (auto simp: queue_inv_def)
        then have nb: "Blocked \<notin> set ((workers q)[i := Exited])" using sub by blast
        have h: "holding ((workers q)[i := Exited]) = holding (workers q)"
          if "length (workers q) \<le> 1"
        proof -
          from one [OF that] Idle have "workers q = [Idle]" "i = 0" by simp_all
          then show ?thesis by simp
        qed
        from assms nb h True Nil show ?thesis unfolding w by (auto simp: queue_inv_def)
      next
        case False
        then have w: "work i q = q\<lparr>workers := (workers q)[i := Blocked]\<rparr>"
          using i Idle Nil by (simp add: work_def)
        have "Exited \<notin> set (workers q)" using assms False by (auto simp: queue_inv_def)
        then have ne: "Exited \<notin> set ((workers q)[i := Blocked])" using sub by blast
        have h: "holding ((workers q)[i := Blocked]) = holding (workers q)"
          if "length (workers q) \<le> 1"
        proof -
          from one [OF that] Idle have "workers q = [Idle]" "i = 0" by simp_all
          then show ?thesis by simp
        qed
        from assms ne h False Nil show ?thesis unfolding w by (auto simp: queue_inv_def)
      qed
    next
      case (Cons x xs)
      then have w: "work i q = q\<lparr>items := xs, workers := (workers q)[i := Holding x],
                             dequeued := dequeued q @ [x]\<rparr>"
        using i Idle by (simp add: work_def)
      have nb0: "Blocked \<notin> set (workers q)" and ne0: "Exited \<notin> set (workers q)"
        using assms Cons by (auto simp: queue_inv_def)
      have nb: "Blocked \<notin> set ((workers q)[i := Holding x])"
        and ne: "Exited \<notin> set ((workers q)[i := Holding x])"
        using nb0 ne0 sub by blast+
      have h: "dequeued q @ [x] = consumed q @ holding ((workers q)[i := Holding x])"
        if "length (workers q) \<le> 1"
      proof -
        from one [OF that] Idle have "workers q = [Idle]" "i = 0" by simp_all
        with assms that show ?thesis by (simp add: queue_inv_def)
      qed
      from assms nb ne h Cons show ?thesis unfolding w by (auto simp: queue_inv_def)
    qed
  next
    case Blocked
    have "Blocked \<in> set (workers q)" using mem Blocked by simp
    then have "\<not> stopped q" using assms by (simp add: queue_inv_def)
    then have "work i q = q" using i Blocked by (simp add: work_def)
    with assms show ?thesis by simp
  next
    case (Holding x)
    then have w: "work i q = q\<lparr>workers := (workers q)[i := Running x],
                            consumed := consumed q @ [x]\<rparr>"
      using i by (simp add: work_def)
    have nb: "Blocked \<in> set ((workers q)[i := Running x]) \<Longrightarrow> Blocked \<in> set (workers q)"
      and ne: "Exited \<in> set ((workers q)[i := Running x]) \<Longrightarrow> Exited \<in> set (workers q)"
      using sub by blast+
    have h: "dequeued q = (consumed q @ [x]) @ holding ((workers q)[i := Running x])"
      if "length (workers q) \<le> 1"
    proof -
      from one [OF that] Holding have "workers q = [Holding x]" "i = 0" by simp_all
      with assms that show ?thesis by (simp add: queue_inv_def)
    qed
    from assms nb ne h show ?thesis unfolding w by (auto simp: queue_inv_def)
  next
    case (Running x)
    then have w: "work i q = q\<lparr>workers := (workers q)[i := Idle]\<rparr>"
      using i by (simp add: work_def)
    have nb: "Blocked \<in> set ((workers q)[i := Idle]) \<Longrightarrow> Blocked \<in> set (workers q)"
      and ne: "Exited \<in> set ((workers q)[i := Idle]) \<Longrightarrow> Exited \<in> set (workers q)"
      using sub by blast+
    have h: "dequeued q = consumed q @ holding ((workers q)[i := Idle])"
      if "length (workers q) \<le> 1"
    proof -
      from one [OF that] Running have "workers q = [Running x]" "i = 0" by simp_all
      with assms that show ?thesis by (simp add: queue_inv_def)
    qed
    from assms nb ne h show ?thesis unfolding w by (auto simp: queue_inv_def)
  next
    case Exited
    then have "work i q = q" using i by (simp add: work_def)
    with assms show ?thesis by simp
  qed
qed

lemma inv_step: "queue_inv C W q \<Longrightarrow> queue_inv C W (step a q)"
  by (cases a) (simp_all add: inv_Start inv_Produce inv_work inv_shutdown_begin)

lemma inv_run: "queue_inv C W q \<Longrightarrow> queue_inv C W (run acts q)"
  by (induction acts arbitrary: q) (simp_all add: inv_step)

lemma inv_reachable: "queue_inv C W (run acts (NewBoundedMemoryQueue C W))"
  by (simp add: inv_run inv_New)

lemma work_keeps:
  "accepted (work i q) = accepted q \<and> stopped (work i q) = stopped q \<and>
   capacity (work i q) = capacity q \<and> length (workers (work i q)) = length (workers q)"
  by (cases "workers q ! i"; cases "items q") (simp_all add: work_def)

lemma drain_keeps:
  "accepted (drain q) = accepted q \<and> stopped (drain q) = stopped q \<and>
   length (workers (drain q)) = length (workers q)"
proof (induction q rule: drain.induct)
  case (1 q)
  show ?case
  proof (cases "stopped q")
    case False
    then have "drain q = q" by (subst drain.simps) simp
    then show ?thesis by simp
  next
    case True
    show ?thesis
    proof (cases "index_of (\<lambda>w. w \<noteq> Exited) (workers q)")
      case None
      with True have "drain q = q" by (subst drain.simps) simp
      then show ?thesis by simp
    next
      case (Some i)
      have d: "drain q = drain (work i q)" using True Some by (subst drain.simps) simp
      from "1.IH" [OF True Some] show ?thesis unfolding d by (simp add: work_keeps)
    qed
  qed
qed

lemma drain_inv: "queue_inv C W q \<Longrightarrow> queue_inv C W (drain q)"
proof (induction q rule: drain.induct)
  case (1 q)
  show ?case
  proof (cases "stopped q")
    case False
    with "1.prems" show ?thesis by (subst drain.simps) simp
  next
    case True
    show ?thesis
    proof (cases "index_of (\<lambda>w. w \<noteq> Exited) (workers q)")
      case None
      with True "1.prems" show ?thesis by (subst drain.simps) simp
    next
      case (Some i)
      have d: "drain q = drain (work i q)" using True Some by (subst drain.simps) simp
      from "1.IH" [OF True Some inv_work [OF "1.prems"]] show ?thesis unfolding d .
    qed
  qed
qed

lemma drain_all_exited: "stopped q \<Longrightarrow> \<forall>w \<in> set (workers (drain q)). w = Exited"
proof (induction q rule: drain.induct)
  case (1 q)
  show ?case
  proof (cases "index_of (\<lambda>w. w \<noteq> Exited) (workers q)")
    case None
    then have "\<forall>w \<in> set (workers q). w = Exited" by (auto simp: index_of_None)
    moreover have "drain q = q" using "1.prems" None by (subst drain.simps) simp
    ultimately show ?thesis by simp
  next
    case (Some i)
    have d: "drain q = drain (work i q)" using "1.prems" Some by (subst drain.simps) simp
    have "stopped (work i q)" using "1.prems" by (simp add: work_keeps)
    from "1.IH" [OF "1.prems" Some this] show ?thesis unfolding d .
  qed
qed

lemma shutdown_begin_keeps:
  "accepted (shutdown_begin q) = accepted q \<and> stopped (shutdown_begin q) \<and>
   length (workers (shutdown_begin q)) = length (workers q)"
  by (simp add: shutdown_begin_def)

lemma stopped_step: "stopped q \<Longrightarrow> stopped (step a q)"
  by (cases a) (simp_all add: queue_Start_def Produce_def work_keeps shutdown_begin_def)

lemma stopped_run: "stopped q \<Longrightarrow> stopped (run acts q)"
  by (induction acts arbitrary: q) (simp_all add: stopped_step)

lemma Produce_stopped: "stopped q \<Longrightarrow> Produce r q = (False, q)"
  by (simp add: Produce_def)

lemma Shutdown_single_worker:
  assumes inv: "queue_inv C 1 q" and started: "workers q \<noteq> []"
  shows "consumed (queue_Shutdown q) = accepted q"
    and "items (queue_Shutdown q) = []"
    and "stopped (queue_Shutdown q)"
    and "workers (queue_Shutdown q) = [Exited]"
proof -
  let ?q = "queue_Shutdown q"
  have i: "queue_inv C 1 ?q"
    unfolding queue_Shutdown_def by (intro drain_inv inv_shutdown_begin inv)
  have s: "stopped ?q"
    unfolding queue_Shutdown_def by (simp add: drain_keeps shutdown_begin_keeps)
  have l: "length (workers ?q) = length (workers q)"
    unfolding queue_Shutdown_def by (simp add: drain_keeps shutdown_begin_keeps)
  have "length (workers q) = 1" using inv started by (simp add: queue_inv_def)
  with l have l1: "length (workers ?q) = 1" by simp
  have e: "\<forall>w \<in> set (workers ?q). w = Exited"
    unfolding queue_Shutdown_def by (rule drain_all_exited) (simp add: shutdown_begin_keeps)
  from l1 e show w: "workers ?q = [Exited]"
    by (cases "workers ?q") auto
  from i w show "items ?q = []" by (simp add: queue_inv_def)
  have a: "accepted ?q = accepted q"
    unfolding queue_Shutdown_def by (simp add: drain_keeps shutdown_begin_keeps)
  from i w have "accepted ?q = consumed ?q" by (simp add: queue_inv_def)
  with a show "consumed ?q = accepted q" by simp
  show "stopped ?q" by (rule s)
qed

text \<open>
  C2. A queue of capacity 10 with one worker, started, after any run in which ten requests
  were accepted: when \<open>Shutdown\<close> returns, the callback has been invoked on all ten
  accepted requests, in the order they were accepted, the worker has exited, \<open>Size\<close> is 0,
  and every \<open>Produce\<close> from then on, whatever else happens to the queue, returns false and
  changes nothing. \<open>Shutdown\<close> is a total function, so it does return.
\<close>
theorem shutdown_drains_accepted_requests:
  fixes q :: "'a queue"
  assumes "q = run acts (NewBoundedMemoryQueue 10 1)"
    and "workers q \<noteq> []" and "length (accepted q) = 10"
  shows "consumed (queue_Shutdown q) = accepted q \<and>
         workers (queue_Shutdown q) = [Exited] \<and>
         Size (queue_Shutdown q) = 0 \<and>
         (\<forall>bs r. Produce r (run bs (queue_Shutdown q)) = (False, run bs (queue_Shutdown q)))"
proof -
  have inv: "queue_inv 10 1 q" unfolding assms(1) by (rule inv_reachable)
  note s = Shutdown_single_worker [OF inv assms(2)]
  have "Produce r (run bs (queue_Shutdown q)) = (False, run bs (queue_Shutdown q))" for bs r
    by (intro Produce_stopped stopped_run s(3))
  with s show ?thesis by (simp add: Size_def)
qed

text \<open>
  C9. After every run of a queue of capacity \<open>C\<close> with \<open>W\<close> workers, \<open>Size\<close> lies between 0
  and the capacity, and it is the number of requests accepted minus the number workers
  have taken: a request in flight at a worker is not counted.
\<close>
theorem size_between_zero_and_capacity:
  fixes q :: "'a queue"
  assumes "q = run acts (NewBoundedMemoryQueue C W)"
  shows "0 \<le> Size q \<and> Size q \<le> int (capacity q) \<and> capacity q = C \<and>
         Size q = int (length (accepted q)) - int (length (dequeued q))"
proof -
  have "queue_inv C W q" unfolding assms by (rule inv_reachable)
  then show ?thesis by (simp add: queue_inv_def Size_def)
qed

text \<open>
  C7. After every run of a queue of capacity 0: with \<open>W > 0\<close> workers \<open>Produce\<close> returns true
  iff some worker is blocked on dequeue, and with \<open>W = 0\<close> it returns false; when it returns
  true the request is in the hands of a worker and nothing is buffered.
\<close>
theorem zero_capacity_hand_off:
  fixes q :: "'a queue"
  assumes "q = run acts (NewBoundedMemoryQueue 0 W)"
  shows "(0 < W \<longrightarrow> (fst (Produce r q) \<longleftrightarrow> Blocked \<in> set (workers q))) \<and>
         (W = 0 \<longrightarrow> \<not> fst (Produce r q)) \<and>
         (fst (Produce r q) \<longrightarrow>
            Holding r \<in> set (workers (snd (Produce r q))) \<and> Size (snd (Produce r q)) = 0)"
proof -
  have inv: "queue_inv 0 W q" unfolding assms by (rule inv_reachable)
  have iff: "fst (Produce r q) \<longleftrightarrow> Blocked \<in> set (workers q)"
  proof (cases "index_of (\<lambda>w. w = Blocked) (workers q)")
    case None
    then have "Blocked \<notin> set (workers q)" by (auto simp: index_of_None)
    with None inv show ?thesis by (simp add: Produce_def queue_inv_def)
  next
    case (Some i)
    from index_of_Some [OF Some] have "Blocked \<in> set (workers q)" by (metis nth_mem)
    moreover from this inv have "\<not> stopped q" by (simp add: queue_inv_def)
    ultimately show ?thesis using Some by (simp add: Produce_def)
  qed
  have none: "\<not> fst (Produce r q)" if "W = 0"
  proof -
    from inv that have "workers q = []" by (simp add: queue_inv_def)
    with iff show ?thesis by simp
  qed
  have hand: "Holding r \<in> set (workers (snd (Produce r q))) \<and> Size (snd (Produce r q)) = 0"
    if "fst (Produce r q)"
  proof -
    from that iff have b: "Blocked \<in> set (workers q)" by simp
    with inv have ns: "\<not> stopped q" and e: "items q = []" by (simp_all add: queue_inv_def)
    from b obtain i where i: "index_of (\<lambda>w. w = Blocked) (workers q) = Some i"
      by (cases "index_of (\<lambda>w. w = Blocked) (workers q)") (auto simp: index_of_None)
    from index_of_Some [OF i] have "i < length (workers q)" by simp
    then have "Holding r \<in> set ((workers q)[i := Holding r])" by (simp add: set_update_memI)
    with ns i e show ?thesis by (simp add: Produce_def Size_def)
  qed
  from iff none hand show ?thesis by blast
qed

text \<open>
  C4 (as amended). After every run of a queue of capacity \<open>C\<close>: once \<open>C\<close> requests are
  buffered (and, for \<open>C = 0\<close>, no worker is blocked on dequeue), \<open>Produce\<close> returns false at
  once and changes nothing; workers take the accepted requests in the order they were
  accepted; with a single worker the callback sees them in that order. In the scenario
  with \<open>C = 1\<close> and \<open>W = 1\<close>, "a" and "b" are accepted, "c" is rejected, and the callback sees
  "a" then "b".
\<close>
theorem full_queue_rejects_and_single_worker_fifo:
  fixes q :: "'a queue"
  assumes "q = run acts (NewBoundedMemoryQueue C W)"
  shows "(length (items q) = C \<and> (C = 0 \<longrightarrow> Blocked \<notin> set (workers q)) \<longrightarrow>
            Produce r q = (False, q)) \<and>
         accepted q = dequeued q @ items q \<and>
         (W = 1 \<longrightarrow> accepted q = consumed q @ holding (workers q) @ items q) \<and>
         fst (Produce ''a'' (run [DoStart, DoWork 0] (NewBoundedMemoryQueue 1 1))) \<and>
         fst (Produce ''b'' (run [DoStart, DoWork 0, DoProduce ''a'', DoWork 0]
                (NewBoundedMemoryQueue 1 1))) \<and>
         \<not> fst (Produce ''c'' (run [DoStart, DoWork 0, DoProduce ''a'', DoWork 0, DoProduce ''b'']
                (NewBoundedMemoryQueue 1 1))) \<and>
         consumed (run [DoStart, DoWork 0, DoProduce ''a'', DoWork 0, DoProduce ''b'',
                        DoProduce ''c'', DoWork 0, DoWork 0, DoWork 0]
                (NewBoundedMemoryQueue 1 1)) = [''a'', ''b'']"
proof -
  have inv: "queue_inv C W q" unfolding assms by (rule inv_reachable)
  have rej: "Produce r q = (False, q)"
    if h: "length (items q) = C \<and> (C = 0 \<longrightarrow> Blocked \<notin> set (workers q))"
  proof (cases "stopped q")
    case True
    then show ?thesis by (rule Produce_stopped)
  next
    case False
    have "Blocked \<notin> set (workers q)"
    proof (cases "C = 0")
      case True
      with h show ?thesis by simp
    next
      case F: False
      with h have "items q \<noteq> []" by auto
      with inv show ?thesis by (auto simp: queue_inv_def)
    qed
    then have "index_of (\<lambda>w. w = Blocked) (workers q) = None" by (auto simp: index_of_None)
    with False h inv show ?thesis by (simp add: Produce_def queue_inv_def)
  qed
  have fifo: "accepted q = dequeued q @ items q" using inv by (simp add: queue_inv_def)
  have one: "accepted q = consumed q @ holding (workers q) @ items q" if "W = 1"
    using inv that by (auto simp: queue_inv_def)
  have s1: "fst (Produce ''a'' (run [DoStart, DoWork 0] (NewBoundedMemoryQueue 1 1)))"
    by code_simp
  have s2: "fst (Produce ''b'' (run [DoStart, DoWork 0, DoProduce ''a'', DoWork 0]
                (NewBoundedMemoryQueue 1 1)))"
    by code_simp
  have s3: "\<not> fst (Produce ''c'' (run [DoStart, DoWork 0, DoProduce ''a'', DoWork 0, DoProduce ''b'']
                (NewBoundedMemoryQueue 1 1)))"
    by code_simp
  have s4: "consumed (run [DoStart, DoWork 0, DoProduce ''a'', DoWork 0, DoProduce ''b'',
                        DoProduce ''c'', DoWork 0, DoWork 0, DoWork 0]
                (NewBoundedMemoryQueue 1 1)) = [''a'', ''b'']"
    by code_simp
  from rej fifo one s1 s2 s3 s4 show ?thesis by simp
qed

text \<open>
  C4 as stated fails with two workers. Both workers are inside the callback, two requests
  are buffered in a queue of capacity 2 and a further one is rejected; once the workers
  return, the first takes "c" and the second takes "d", and the second reaches the callback
  first: accepted in the order c, d, seen in the order d, c.
\<close>
theorem two_workers_reorder:
  "items (run [DoStart, DoWork 0, DoWork 1, DoProduce ''x'', DoProduce ''y'', DoWork 0, DoWork 1,
               DoProduce ''c'', DoProduce ''d'']
            (NewBoundedMemoryQueue 2 2)) = [''c'', ''d''] \<and>
   workers (run [DoStart, DoWork 0, DoWork 1, DoProduce ''x'', DoProduce ''y'', DoWork 0, DoWork 1,
               DoProduce ''c'', DoProduce ''d'']
            (NewBoundedMemoryQueue 2 2)) = [Running ''x'', Running ''y''] \<and>
   \<not> fst (Produce ''e''
       (run [DoStart, DoWork 0, DoWork 1, DoProduce ''x'', DoProduce ''y'', DoWork 0, DoWork 1,
               DoProduce ''c'', DoProduce ''d'']
            (NewBoundedMemoryQueue 2 2))) \<and>
   accepted (run [DoStart, DoWork 0, DoWork 1, DoProduce ''x'', DoProduce ''y'', DoWork 0, DoWork 1,
               DoProduce ''c'', DoProduce ''d'', DoProduce ''e'',
               DoWork 0, DoWork 1, DoWork 0, DoWork 1, DoWork 1, DoWork 0]
            (NewBoundedMemoryQueue 2 2)) = [''x'', ''y'', ''c'', ''d''] \<and>
   consumed (run [DoStart, DoWork 0, DoWork 1, DoProduce ''x'', DoProduce ''y'', DoWork 0, DoWork 1,
               DoProduce ''c'', DoProduce ''d'', DoProduce ''e'',
               DoWork 0, DoWork 1, DoWork 0, DoWork 1, DoWork 1, DoWork 0]
            (NewBoundedMemoryQueue 2 2)) = [''x'', ''y'', ''d'', ''c'']"
  by code_simp

text \<open>A run of C4 with \<open>C = 1\<close> and \<open>W = 1\<close>: the full queue rejects "c".\<close>
theorem full_queue_rejects_and_single_worker_fifo_witness:
  "Produce ''c'' (run [DoStart, DoWork 0, DoProduce ''a'', DoWork 0, DoProduce ''b'']
       (NewBoundedMemoryQueue 1 1)) =
     (False, run [DoStart, DoWork 0, DoProduce ''a'', DoWork 0, DoProduce ''b'']
       (NewBoundedMemoryQueue 1 1)) \<and>
   accepted (run [DoStart, DoWork 0, DoProduce ''a'', DoWork 0, DoProduce ''b'']
       (NewBoundedMemoryQueue 1 1)) = [''a''] @ [] @ [''b'']"
proof -
  let ?q = "run [DoStart, DoWork 0, DoProduce ''a'', DoWork 0, DoProduce ''b'']
       (NewBoundedMemoryQueue 1 1) :: string queue"
  have h: "length (items ?q) = 1 \<and> ((1::nat) = 0 \<longrightarrow> Blocked \<notin> set (workers ?q))"
    by code_simp
  have c: "consumed ?q = [''a'']" "holding (workers ?q) = []" "items ?q = [''b'']"
    by code_simp+
  note t = full_queue_rejects_and_single_worker_fifo
    [where acts = "[DoStart, DoWork 0, DoProduce ''a'', DoWork 0, DoProduce ''b'']" and C = 1
       and W = 1 and r = "''c''", OF refl]
  from t h have "Produce ''c'' ?q = (False, ?q)" by blast
  moreover from t have "accepted ?q = consumed ?q @ holding (workers ?q) @ items ?q" by blast
  ultimately show ?thesis using c by simp
qed

text \<open>
  A run of C2: the worker is inside the callback with "a" while "b" to "j" are buffered,
  and \<open>Shutdown\<close> is called.
\<close>
theorem shutdown_drains_accepted_requests_witness:
  "consumed (queue_Shutdown
      (run [DoStart, DoWork 0, DoProduce ''a'', DoWork 0, DoProduce ''b'', DoProduce ''c'',
            DoProduce ''d'', DoProduce ''e'', DoProduce ''f'', DoProduce ''g'', DoProduce ''h'',
            DoProduce ''i'', DoProduce ''j''] (NewBoundedMemoryQueue 10 1))) =
     [''a'', ''b'', ''c'', ''d'', ''e'', ''f'', ''g'', ''h'', ''i'', ''j''] \<and>
   Size (queue_Shutdown
      (run [DoStart, DoWork 0, DoProduce ''a'', DoWork 0, DoProduce ''b'', DoProduce ''c'',
            DoProduce ''d'', DoProduce ''e'', DoProduce ''f'', DoProduce ''g'', DoProduce ''h'',
            DoProduce ''i'', DoProduce ''j''] (NewBoundedMemoryQueue 10 1))) = 0 \<and>
   \<not> fst (Produce ''x'' (queue_Shutdown
      (run [DoStart, DoWork 0, DoProduce ''a'', DoWork 0, DoProduce ''b'', DoProduce ''c'',
            DoProduce ''d'', DoProduce ''e'', DoProduce ''f'', DoProduce ''g'', DoProduce ''h'',
            DoProduce ''i'', DoProduce ''j''] (NewBoundedMemoryQueue 10 1))))"
proof -
  let ?acts = "[DoStart, DoWork 0, DoProduce ''a'', DoWork 0, DoProduce ''b'', DoProduce ''c'',
            DoProduce ''d'', DoProduce ''e'', DoProduce ''f'', DoProduce ''g'', DoProduce ''h'',
            DoProduce ''i'', DoProduce ''j'']"
  let ?q = "run ?acts (NewBoundedMemoryQueue 10 1) :: string queue"
  have w: "workers ?q \<noteq> []" by code_simp
  have a: "accepted ?q = [''a'', ''b'', ''c'', ''d'', ''e'', ''f'', ''g'', ''h'', ''i'', ''j'']"
    by code_simp
  then have n: "length (accepted ?q) = 10" by simp
  note t = shutdown_drains_accepted_requests [OF refl w n]
  from t have "consumed (queue_Shutdown ?q) = accepted ?q" and "Size (queue_Shutdown ?q) = 0"
    by blast+
  moreover from t have "Produce ''x'' (run [] (queue_Shutdown ?q)) = (False, run [] (queue_Shutdown ?q))"
    by blast
  ultimately show ?thesis using a by simp
qed

text \<open>
  A run of C9 with capacity 1: with "a" in flight at the worker \<open>Size\<close> is 0, and with "b"
  buffered and "c" rejected it is 1.
\<close>
theorem size_between_zero_and_capacity_witness:
  "Size (run [DoStart, DoWork 0, DoProduce ''a'', DoWork 0] (NewBoundedMemoryQueue 1 1)) = 0 \<and>
   workers (run [DoStart, DoWork 0, DoProduce ''a'', DoWork 0] (NewBoundedMemoryQueue 1 1)) =
     [Running ''a''] \<and>
   Size (run [DoStart, DoWork 0, DoProduce ''a'', DoWork 0, DoProduce ''b'', DoProduce ''c'']
           (NewBoundedMemoryQueue 1 1)) = 1 \<and>
   Size (run [DoStart, DoWork 0, DoProduce ''a'', DoWork 0, DoProduce ''b'', DoProduce ''c'']
           (NewBoundedMemoryQueue 1 1)) \<le> 1"
proof -
  let ?q = "run [DoStart, DoWork 0, DoProduce ''a'', DoWork 0] (NewBoundedMemoryQueue 1 1)
              :: string queue"
  let ?q' = "run [DoStart, DoWork 0, DoProduce ''a'', DoWork 0, DoProduce ''b'', DoProduce ''c'']
           (NewBoundedMemoryQueue 1 1) :: string queue"
  have "accepted ?q = [''a'']" "dequeued ?q = [''a'']" "workers ?q = [Running ''a'']"
    "accepted ?q' = [''a'', ''b'']" "dequeued ?q' = [''a'']"
    by code_simp+
  with size_between_zero_and_capacity
      [where acts = "[DoStart, DoWork 0, DoProduce ''a'', DoWork 0]" and C = 1 and W = 1, OF refl]
    size_between_zero_and_capacity
      [where acts = "[DoStart, DoWork 0, DoProduce ''a'', DoWork 0, DoProduce ''b'', DoProduce ''c'']"
         and C = 1 and W = 1, OF refl]
  show ?thesis by simp
qed

text \<open>
  Runs of C7: a worker blocked on dequeue takes the request; a worker that has not yet
  reached the dequeue does not; no worker at all.
\<close>
theorem zero_capacity_hand_off_witness:
  "fst (Produce ''a'' (run [DoStart, DoWork 0] (NewBoundedMemoryQueue 0 1))) \<and>
   \<not> fst (Produce ''a'' (run [DoStart] (NewBoundedMemoryQueue 0 1))) \<and>
   \<not> fst (Produce ''a'' (run [DoStart] (NewBoundedMemoryQueue 0 0)))"
proof -
  let ?q1 = "run [DoStart, DoWork 0] (NewBoundedMemoryQueue 0 1) :: string queue"
  let ?q2 = "run [DoStart] (NewBoundedMemoryQueue 0 1) :: string queue"
  let ?q3 = "run [DoStart] (NewBoundedMemoryQueue 0 0) :: string queue"
  have b1: "Blocked \<in> set (workers ?q1)" and b2: "Blocked \<notin> set (workers ?q2)"
    by code_simp+
  from zero_capacity_hand_off [where acts = "[DoStart, DoWork 0]" and W = 1 and r = "''a''", OF refl] b1
  have 1: "fst (Produce ''a'' ?q1)" by simp
  from zero_capacity_hand_off [where acts = "[DoStart]" and W = 1 and r = "''a''", OF refl] b2
  have 2: "\<not> fst (Produce ''a'' ?q2)" by simp
  from zero_capacity_hand_off [where acts = "[DoStart]" and W = 0 and r = "''a''", OF refl]
  have 3: "\<not> fst (Produce ''a'' ?q3)" by simp
  from 1 2 3 show ?thesis by simp
qed

lemma no_workers_step:
  "workers q = [] \<Longrightarrow> a \<noteq> DoStart \<Longrightarrow>
     workers (step a q) = [] \<and> dequeued (step a q) = dequeued q \<and> consumed (step a q) = consumed q"
  by (cases a) (simp_all add: Produce_def work_def shutdown_begin_def)

lemma no_workers_run:
  "workers q = [] \<Longrightarrow> DoStart \<notin> set acts \<Longrightarrow>
     workers (run acts q) = [] \<and> dequeued (run acts q) = dequeued q \<and>
     consumed (run acts q) = consumed q"
proof (induction acts arbitrary: q)
  case Nil
  then show ?case by simp
next
  case (Cons a acts)
  from Cons.prems have a: "a \<noteq> DoStart" and r: "DoStart \<notin> set acts" by auto
  note s = no_workers_step [OF Cons.prems(1) a]
  from Cons.IH [of "step a q"] s r show ?case by simp
qed

lemma hook_keeps_queue:
  "call_func (map_option lift_transport h) w = (e, w1) \<Longrightarrow>
     sending_queue (ext w1) = sending_queue (ext w)"
  by (cases h)
     (auto simp: call_func_def run_lifecycle_def lift_transport_def split: prod.splits)

lemma sender_Start_queue:
  assumes "impl_of st a = Some (QueueSender c cs d m u)"
  shows "sender_Start (with_queue_sender X) st a w =
           Returns (None, w\<lparr>calls := calls w @ [StartCalled (Sender a)],
                            ext := (ext w)\<lparr>sending_queue := queue_Start (sending_queue (ext w))\<rparr>\<rparr>)"
proof -
  from assms obtain s where s: "cells st a = Some s" "impl s = QueueSender c cs d m u"
    by (auto simp: impl_of_def)
  then show ?thesis
    by (simp add: sender_Start_def with_queue_sender_def queueSender_Start_def run_lifecycle_def
          record_call_def)
qed

text \<open>
  C6. \<open>Start\<close> calls the user's start hook first. When the hook returns an error, \<open>Start\<close>
  returns that error and the only call made is the hook's: the queue sender is not
  started. When the hook returns nil, the queue sender is started next, in the world the
  hook left, and its result is the result of \<open>Start\<close>. For the workers: when the hook
  fails, the queue is as it was before \<open>Start\<close>, and if it had no workers then, whatever
  producers do afterwards, it has none and nothing is taken off it or handed to the
  callback; when the hook returns nil and the queue slot holds a queue sender, the workers
  are started on the queue as it was before \<open>Start\<close>, after the hook has returned.
\<close>
theorem Start_transport_before_queue:
  fixes be :: "'t pipeline baseExporter" and X :: "'t pipeline externals"
  assumes "newBaseExporter no cs sig re m u osf ops st0 = Returns (Inr (be, st))"
  shows "(\<forall>err w1. call_func (StartFunc be) (record_call (StartCalled Transport) w) = (Some err, w1) \<longrightarrow>
            Start X st be w = Returns (Some err, w1) \<and>
            calls w1 = calls w @ [StartCalled Transport]) \<and>
         (\<forall>w1. call_func (StartFunc be) (record_call (StartCalled Transport) w) = (None, w1) \<longrightarrow>
            (\<exists>e w2. Start X st be w = Returns (e, w2) \<and>
                    sender_Start X st (queueSender be) w1 = Returns (e, w2) \<and>
                    calls w2 = calls w @ [StartCalled Transport, StartCalled (Sender (queueSender be))])) \<and>
         (\<forall>h err w1.
            StartFunc be = map_option lift_transport h \<and> workers (sending_queue (ext w)) = [] \<and>
            call_func (StartFunc be) (record_call (StartCalled Transport) w) = (Some err, w1) \<longrightarrow>
              Start X st be w = Returns (Some err, w1) \<and>
              sending_queue (ext w1) = sending_queue (ext w) \<and>
              (\<forall>acts. DoStart \<notin> set acts \<longrightarrow>
                 workers (run acts (sending_queue (ext w1))) = [] \<and>
                 dequeued (run acts (sending_queue (ext w1))) = dequeued (sending_queue (ext w)) \<and>
                 consumed (run acts (sending_queue (ext w1))) = consumed (sending_queue (ext w)))) \<and>
         (\<forall>h w1 c cs' d m' u'.
            StartFunc be = map_option lift_transport h \<and>
            impl_of st (queueSender be) = Some (QueueSender c cs' d m' u') \<and>
            call_func (StartFunc be) (record_call (StartCalled Transport) w) = (None, w1) \<longrightarrow>
              (\<exists>w2. Start (with_queue_sender X) st be w = Returns (None, w2) \<and>
                    sending_queue (ext w2) = queue_Start (sending_queue (ext w)) \<and>
                    transport (ext w2) = transport (ext w1) \<and>
                    calls w2 = calls w @ [StartCalled Transport,
                                          StartCalled (Sender (queueSender be))]))"
proof (intro conjI allI impI)
  fix err w1
  assume c: "call_func (StartFunc be) (record_call (StartCalled Transport) w) = (Some err, w1)"
  then show "Start X st be w = Returns (Some err, w1)" by (simp add: Start_def)
  from calls_call_func [OF c] show "calls w1 = calls w @ [StartCalled Transport]"
    by (simp add: record_call_def)
next
  fix w1
  assume c: "call_func (StartFunc be) (record_call (StartCalled Transport) w) = (None, w1)"
  have "queueSender be \<in> dom (cells st)"
    using constructed_facts(1) [OF assms] by (simp add: slots_ok_def)
  from sender_Start_returns [OF this, of X w1] obtain e w2
    where s: "sender_Start X st (queueSender be) w1 = Returns (e, w2)"
      and k: "calls w2 = calls w1 @ [StartCalled (Sender (queueSender be))]" by blast
  have "Start X st be w = Returns (e, w2)" using c s by (simp add: Start_def)
  moreover have "calls w2 = calls w @ [StartCalled Transport, StartCalled (Sender (queueSender be))]"
    using k calls_call_func [OF c] by (simp add: record_call_def)
  ultimately show "\<exists>e w2. Start X st be w = Returns (e, w2) \<and>
                    sender_Start X st (queueSender be) w1 = Returns (e, w2) \<and>
                    calls w2 = calls w @ [StartCalled Transport, StartCalled (Sender (queueSender be))]"
    using s by blast
next
  fix h err w1
  assume a: "StartFunc be = map_option lift_transport h \<and> workers (sending_queue (ext w)) = [] \<and>
            call_func (StartFunc be) (record_call (StartCalled Transport) w) = (Some err, w1)"
  then have e: "StartFunc be = map_option lift_transport h"
    and c: "call_func (StartFunc be) (record_call (StartCalled Transport) w) = (Some err, w1)"
    and nw: "workers (sending_queue (ext w)) = []"
    by blast+
  have c': "call_func (map_option lift_transport h) (record_call (StartCalled Transport) w) = (Some err, w1)"
    using c unfolding e .
  from c show "Start X st be w = Returns (Some err, w1)" by (simp add: Start_def)
  from hook_keeps_queue [OF c'] show q: "sending_queue (ext w1) = sending_queue (ext w)"
    by (simp add: record_call_def)
  fix acts :: "Request action list"
  assume "DoStart \<notin> set acts"
  from no_workers_run [OF nw this] q
  show "workers (run acts (sending_queue (ext w1))) = []"
    and "dequeued (run acts (sending_queue (ext w1))) = dequeued (sending_queue (ext w))"
    and "consumed (run acts (sending_queue (ext w1))) = consumed (sending_queue (ext w))"
    by simp_all
next
  fix h w1 c cs' d m' u'
  assume a: "StartFunc be = map_option lift_transport h \<and>
            impl_of st (queueSender be) = Some (QueueSender c cs' d m' u') \<and>
            call_func (StartFunc be) (record_call (StartCalled Transport) w) = (None, w1)"
  then have e: "StartFunc be = map_option lift_transport h"
    and c: "call_func (StartFunc be) (record_call (StartCalled Transport) w) = (None, w1)"
    and i: "impl_of st (queueSender be) = Some (QueueSender c cs' d m' u')"
    by blast+
  have c': "call_func (map_option lift_transport h) (record_call (StartCalled Transport) w) = (None, w1)"
    using c unfolding e .
  let ?w2 = "w1\<lparr>calls := calls w1 @ [StartCalled (Sender (queueSender be))],
                 ext := (ext w1)\<lparr>sending_queue := queue_Start (sending_queue (ext w1))\<rparr>\<rparr>"
  have "Start (with_queue_sender X) st be w = Returns (None, ?w2)"
    using c sender_Start_queue [OF i, of X w1] by (simp add: Start_def)
  moreover have "sending_queue (ext ?w2) = queue_Start (sending_queue (ext w))"
    using hook_keeps_queue [OF c'] by (simp add: record_call_def)
  moreover have "transport (ext ?w2) = transport (ext w1)" by simp
  moreover have "calls ?w2 = calls w @ [StartCalled Transport, StartCalled (Sender (queueSender be))]"
    using calls_call_func [OF c] by (simp add: record_call_def)
  ultimately show "\<exists>w2. Start (with_queue_sender X) st be w = Returns (None, w2) \<and>
                    sending_queue (ext w2) = queue_Start (sending_queue (ext w)) \<and>
                    transport (ext w2) = transport (ext w1) \<and>
                    calls w2 = calls w @ [StartCalled Transport,
                                          StartCalled (Sender (queueSender be))]"
    by blast
qed

text \<open>
  Runs of C6 with the queue enabled. A start hook that fails: the queue keeps no workers
  and a request produced afterwards is not taken. A start hook that succeeds: the ten
  workers are started after it. A queue sender whose own start fails: \<open>Start\<close> returns its
  error.
\<close>
theorem Start_transport_before_queue_witness:
  "(\<exists>be st w1.
      newBaseExporter (Inr \<lparr>ExporterID = ''otlp''\<rparr>) \<lparr>ID = ''otlp'', Logger = 0\<rparr> DataTypeTraces False 0 0
        ObsrepSender
        [WithQueue \<lparr>queueEnabled = True, NumConsumers = 10, QueueSize = 1000\<rparr>,
         WithStart (Some (lift_transport (\<lambda>t. (Some (Error ''no route''), t))))
           :: unit pipeline Option']
        empty_store = Returns (Inr (be, st)) \<and>
      Start (with_queue_sender failing_queue_externals) st be idle_pipeline_world =
        Returns (Some (Error ''no route''), w1) \<and>
      calls w1 = [StartCalled Transport] \<and>
      sending_queue (ext w1) = NewBoundedMemoryQueue 1000 10 \<and>
      workers (run [DoProduce \<lparr>Context = ''ctx'', Count = 7\<rparr>, DoWork 0, DoWork 0]
                 (sending_queue (ext w1))) = [] \<and>
      dequeued (run [DoProduce \<lparr>Context = ''ctx'', Count = 7\<rparr>, DoWork 0, DoWork 0]
                 (sending_queue (ext w1))) = []) \<and>
   (\<exists>be st w2.
      newBaseExporter (Inr \<lparr>ExporterID = ''otlp''\<rparr>) \<lparr>ID = ''otlp'', Logger = 0\<rparr> DataTypeTraces False 0 0
        ObsrepSender
        [WithQueue \<lparr>queueEnabled = True, NumConsumers = 10, QueueSize = 1000\<rparr>,
         WithStart (Some (lift_transport (\<lambda>t. (None, t)))) :: unit pipeline Option']
        empty_store = Returns (Inr (be, st)) \<and>
      Start (with_queue_sender failing_queue_externals) st be idle_pipeline_world =
        Returns (None, w2) \<and>
      calls w2 = [StartCalled Transport, StartCalled (Sender 4)] \<and>
      workers (sending_queue (ext w2)) = replicate 10 Idle \<and>
      Start failing_queue_externals st be idle_pipeline_world =
        Returns (Some (Error ''no storage''),
                 \<lparr>calls = [StartCalled Transport, StartCalled (Sender 4)], logged = [],
                  ext = \<lparr>sending_queue = NewBoundedMemoryQueue 1000 10, transport = ()\<rparr>\<rparr>))"
proof -
  let ?cs = "\<lparr>ID = ''otlp'', Logger = 0\<rparr>"
  let ?qc = "\<lparr>queueEnabled = True, NumConsumers = 10, QueueSize = 1000\<rparr>"
  let ?w = "idle_pipeline_world"
  let ?X = "failing_queue_externals"
  let ?acts = "[DoProduce \<lparr>Context = ''ctx'', Count = 7\<rparr>, DoWork 0, DoWork 0]"
  have nw: "workers (sending_queue (ext ?w)) = []"
    and q0: "sending_queue (ext ?w) = NewBoundedMemoryQueue 1000 10"
    and k0: "calls ?w = []"
    by (simp_all add: idle_pipeline_world_def NewBoundedMemoryQueue_def)
  have na: "DoStart \<notin> set ?acts" by simp

  obtain be :: "unit pipeline baseExporter" and st where eq:
    "newBaseExporter (Inr \<lparr>ExporterID = ''otlp''\<rparr>) ?cs DataTypeTraces False 0 0 ObsrepSender
        [WithQueue ?qc, WithStart (Some (lift_transport (\<lambda>t. (Some (Error ''no route''), t))))]
        empty_store = Returns (Inr (be, st))"
    and f: "StartFunc be = map_option lift_transport (Some (\<lambda>t. (Some (Error ''no route''), t)))"
    by (simp add: construct_defs)
  obtain w1 where c:
    "call_func (StartFunc be) (record_call (StartCalled Transport) ?w) = (Some (Error ''no route''), w1)"
    by (simp add: f call_func_def run_lifecycle_def lift_transport_def)
  note a = Start_transport_before_queue [OF eq, where w = "?w" and X = "with_queue_sender ?X",
      THEN conjunct2, THEN conjunct2, THEN conjunct1, rule_format, OF conjI [OF f conjI [OF nw c]]]
  note a1 = Start_transport_before_queue [OF eq, where w = "?w" and X = "with_queue_sender ?X",
      THEN conjunct1, rule_format, OF c]
  have s1: "Start (with_queue_sender ?X) st be ?w = Returns (Some (Error ''no route''), w1)"
    using a [THEN conjunct1] .
  have q1: "sending_queue (ext w1) = NewBoundedMemoryQueue 1000 10"
    using a [THEN conjunct2, THEN conjunct1] q0 by simp
  note r = a [THEN conjunct2, THEN conjunct2, rule_format, OF na]
  have r1: "workers (run ?acts (sending_queue (ext w1))) = []"
    "dequeued (run ?acts (sending_queue (ext w1))) = dequeued (sending_queue (ext ?w))"
    using r [THEN conjunct1] r [THEN conjunct2, THEN conjunct1] by blast+
  from a1 have k1: "calls w1 = [StartCalled Transport]" using k0 by simp
  have d0: "dequeued (sending_queue (ext ?w)) = []"
    by (simp add: q0 NewBoundedMemoryQueue_def)
  from eq s1 k1 q1 r1 d0 have A:
    "\<exists>be st w1.
      newBaseExporter (Inr \<lparr>ExporterID = ''otlp''\<rparr>) ?cs DataTypeTraces False 0 0 ObsrepSender
        [WithQueue ?qc, WithStart (Some (lift_transport (\<lambda>t. (Some (Error ''no route''), t))))
           :: unit pipeline Option']
        empty_store = Returns (Inr (be, st)) \<and>
      Start (with_queue_sender ?X) st be ?w = Returns (Some (Error ''no route''), w1) \<and>
      calls w1 = [StartCalled Transport] \<and>
      sending_queue (ext w1) = NewBoundedMemoryQueue 1000 10 \<and>
      workers (run ?acts (sending_queue (ext w1))) = [] \<and>
      dequeued (run ?acts (sending_queue (ext w1))) = []"
    by (intro exI [of _ be] exI [of _ st] exI [of _ w1] conjI) (simp_all only:)

  obtain be' :: "unit pipeline baseExporter" and st' where eq':
    "newBaseExporter (Inr \<lparr>ExporterID = ''otlp''\<rparr>) ?cs DataTypeTraces False 0 0 ObsrepSender
        [WithQueue ?qc, WithStart (Some (lift_transport (\<lambda>t. (None, t))))]
        empty_store = Returns (Inr (be', st'))"
    and f': "StartFunc be' = map_option lift_transport (Some (\<lambda>t. (None, t)))"
    and qa: "queueSender be' = 4"
    and cell: "cells st' 4 = Some \<lparr>impl = QueueSender ?qc ?cs DataTypeTraces 0 0, nextSender = Some 1\<rparr>"
    by (simp add: construct_defs)
  have i: "impl_of st' (queueSender be') = Some (QueueSender ?qc ?cs DataTypeTraces 0 0)"
    by (simp add: impl_of_def qa cell)
  have c': "call_func (StartFunc be') (record_call (StartCalled Transport) ?w) =
      (None, record_call (StartCalled Transport) ?w)"
    by (simp add: f' call_func_def run_lifecycle_def lift_transport_def)
  note b = Start_transport_before_queue [OF eq', where w = "?w" and X = "?X",
      THEN conjunct2, THEN conjunct2, THEN conjunct2, rule_format, OF conjI [OF f' conjI [OF i c']]]
  then obtain w2 where s2: "Start (with_queue_sender ?X) st' be' ?w = Returns (None, w2)"
    and q2: "sending_queue (ext w2) = queue_Start (sending_queue (ext ?w))"
    and k2: "calls w2 = calls ?w @ [StartCalled Transport, StartCalled (Sender (queueSender be'))]"
    by blast
  have w2: "workers (sending_queue (ext w2)) = replicate 10 Idle"
    by (simp add: q2 q0 queue_Start_def NewBoundedMemoryQueue_def)
  note b2 = Start_transport_before_queue [OF eq', where w = "?w" and X = "?X",
      THEN conjunct2, THEN conjunct1, rule_format, OF c']
  have ss: "sender_Start ?X st' (queueSender be') (record_call (StartCalled Transport) ?w) =
      Returns (Some (Error ''no storage''),
               \<lparr>calls = [StartCalled Transport, StartCalled (Sender 4)], logged = [],
                ext = \<lparr>sending_queue = NewBoundedMemoryQueue 1000 10, transport = ()\<rparr>\<rparr>)"
    using cell
    by (simp add: qa sender_Start_def failing_queue_externals_def run_lifecycle_def
          record_call_def idle_pipeline_world_def)
  from b2 ss have s3: "Start ?X st' be' ?w =
      Returns (Some (Error ''no storage''),
               \<lparr>calls = [StartCalled Transport, StartCalled (Sender 4)], logged = [],
                ext = \<lparr>sending_queue = NewBoundedMemoryQueue 1000 10, transport = ()\<rparr>\<rparr>)"
    by auto
  from eq' s2 k2 w2 s3 k0 qa have B:
    "\<exists>be st w2.
      newBaseExporter (Inr \<lparr>ExporterID = ''otlp''\<rparr>) ?cs DataTypeTraces False 0 0 ObsrepSender
        [WithQueue ?qc, WithStart (Some (lift_transport (\<lambda>t. (None, t)))) :: unit pipeline Option']
        empty_store = Returns (Inr (be, st)) \<and>
      Start (with_queue_sender ?X) st be ?w = Returns (None, w2) \<and>
      calls w2 = [StartCalled Transport, StartCalled (Sender 4)] \<and>
      workers (sending_queue (ext w2)) = replicate 10 Idle \<and>
      Start ?X st be ?w =
        Returns (Some (Error ''no storage''),
                 \<lparr>calls = [StartCalled Transport, StartCalled (Sender 4)], logged = [],
                  ext = \<lparr>sending_queue = NewBoundedMemoryQueue 1000 10, transport = ()\<rparr>\<rparr>)"
    by (intro exI [of _ be'] exI [of _ st'] exI [of _ w2]) simp
  from A B show ?thesis by (rule conjI)
qed

end
